(* ===== verification/Prelude.thy ===== *)
theory Prelude
  imports Main "HOL-Library.Word"
begin

text \<open>
  Shared vocabulary of the development: the C-level notions the sources rely on
  (signed \<open>char\<close> values, \<open>tolower\<close>, \<open>strlen\<close>, reads from lookup tables given as
  arrays, writes into fixed-capacity buffers, 16-bit and 32-bit machine integers)
  and the generic lemmas about them that the component theories share.
\<close>

named_theorems c_simps \<open>evaluation rules for the C-level helpers\<close>

subsection \<open>Characters as the C compiler sees them\<close>

text \<open>
  On the platforms MMseqs2 targets \<open>char\<close> is signed: a byte \<open>b \<ge> 128\<close> has the
  value \<open>b - 256\<close> when it is compared or used as an array index.
\<close>

definition schar :: "char \<Rightarrow> int" where
  "schar c = (let n = (of_char c :: nat) in if n < 128 then int n else int n - 256)"

text \<open>\<open>tolower\<close> in the C locale changes \<open>A\<close>..\<open>Z\<close> only.\<close>

definition c_tolower :: "char \<Rightarrow> char" where
  "c_tolower c =
     (if 65 \<le> (of_char c :: nat) \<and> (of_char c :: nat) \<le> 90
      then char_of (of_char c + (32 :: nat)) else c)"

text \<open>A \<open>const char *\<close> argument ends at its first NUL byte (\<open>strlen\<close>).\<close>

definition c_string :: "char list \<Rightarrow> char list" where
  "c_string s = takeWhile (\<lambda>c. c \<noteq> CHR 0x00) s"

abbreviation newline :: char where
  "newline \<equiv> CHR 0x0A"

subsection \<open>Arrays\<close>

text \<open>
  A C array read \<open>a[i]\<close>: \<open>None\<close> stands for an index outside the allocated
  range, which is undefined behaviour in the source.
\<close>

definition tbl_get :: "'a list \<Rightarrow> int \<Rightarrow> 'a option" where
  "tbl_get t i = (if 0 \<le> i \<and> i < int (length t) then Some (t ! nat i) else None)"

text \<open>Overwrite \<open>buf[l .. l + length xs - 1]\<close> with \<open>xs\<close>.\<close>

definition list_write :: "'a list \<Rightarrow> nat \<Rightarrow> 'a list \<Rightarrow> 'a list" where
  "list_write buf l xs = take l buf @ xs @ drop (l + length xs) buf"

subsection \<open>Errors\<close>

text \<open>Sequencing of computations that may fail (\<open>Inl\<close> is the error).\<close>

definition sbind :: "'e + 'a \<Rightarrow> ('a \<Rightarrow> 'e + 'b) \<Rightarrow> 'e + 'b" where
  "sbind x f = (case x of Inl e \<Rightarrow> Inl e | Inr a \<Rightarrow> f a)"

subsection \<open>Machine integers\<close>

type_synonym i16 = "16 word"
type_synonym u16 = "16 word"
type_synonym i32 = "32 word"

text \<open>Saturation to the signed 16-bit range, as \<open>_mm_adds_epi16\<close> does per lane.\<close>

definition sat16 :: "int \<Rightarrow> int" where
  "sat16 x = max (-32768) (min 32767 x)"

text \<open>The value a C \<open>int\<close> computation yields when it wraps at 32 bits.\<close>

definition wrap32 :: "int \<Rightarrow> int" where
  "wrap32 x = sint (word_of_int x :: i32)"

subsection \<open>Generic lemmas\<close>

lemma schar_range [c_simps]: "-128 \<le> schar c \<and> schar c < 128"
  using nat_of_char_less_256 [of c] unfolding schar_def Let_def by (simp, linarith)

lemma schar_ascii [c_simps]: "(of_char c :: nat) < 128 \<Longrightarrow> schar c = int (of_char c)"
  by (simp add: schar_def Let_def)

lemma schar_high: "128 \<le> (of_char c :: nat) \<Longrightarrow> schar c = int (of_char c) - 256"
  by (simp add: schar_def Let_def)

lemma tbl_get_Some_iff [c_simps]:
  "tbl_get t i = Some v \<longleftrightarrow> 0 \<le> i \<and> i < int (length t) \<and> t ! nat i = v"
  by (auto simp: tbl_get_def)

lemma tbl_get_None_iff [c_simps]:
  "tbl_get t i = None \<longleftrightarrow> i < 0 \<or> int (length t) \<le> i"
  by (auto simp: tbl_get_def)

lemma tbl_get_nat [c_simps]: "n < length t \<Longrightarrow> tbl_get t (int n) = Some (t ! n)"
  by (simp add: tbl_get_def)

lemma sbind_simps [simp]: "sbind (Inl e) f = Inl e" "sbind (Inr a) f = f a"
  by (simp_all add: sbind_def)

lemma sbind_Inr_iff: "sbind x f = Inr b \<longleftrightarrow> (\<exists>a. x = Inr a \<and> f a = Inr b)"
  by (cases x) simp_all

lemma sbind_assoc: "sbind (sbind x f) g = sbind x (\<lambda>a. sbind (f a) g)"
  by (cases x) simp_all

lemma list_write_Nil [simp]: "list_write buf l [] = buf"
  by (simp add: list_write_def)

lemma list_write_Cons:
  "l < length buf \<Longrightarrow> list_write buf l (x # xs) = list_write (buf[l := x]) (Suc l) xs"
  by (simp add: list_write_def upd_conv_take_nth_drop ac_simps)

lemma length_list_write [simp]:
  "l + length xs \<le> length buf \<Longrightarrow> length (list_write buf l xs) = length buf"
  by (simp add: list_write_def)

lemma nth_list_write:
  "l + length xs \<le> length buf \<Longrightarrow> t < length buf \<Longrightarrow>
   list_write buf l xs ! t = (if l \<le> t \<and> t < l + length xs then xs ! (t - l) else buf ! t)"
  by (auto simp: list_write_def nth_append min_def)

lemma take_list_write:
  "l + length xs \<le> length buf \<Longrightarrow> take (l + length xs) (list_write buf l xs) = take l buf @ xs"
  by (simp add: list_write_def)

lemma nth_concat_uniform:
  "\<forall>xs\<in>set xss. length xs = n \<Longrightarrow> i < length xss \<Longrightarrow> k < n \<Longrightarrow>
   concat xss ! (i * n + k) = xss ! i ! k"
proof (induction xss arbitrary: i)
  case (Cons xs xss)
  then show ?case by (cases i) (auto simp: nth_append)
qed simp

lemma length_concat_uniform:
  "\<forall>xs\<in>set xss. length xs = n \<Longrightarrow> length (concat xss) = length xss * n"
  by (induction xss) auto

lemma sat16_id [simp]: "-32768 \<le> x \<Longrightarrow> x \<le> 32767 \<Longrightarrow> sat16 x = x"
  by (simp add: sat16_def)

lemma sat16_range: "-32768 \<le> sat16 x \<and> sat16 x \<le> 32767"
  by (simp add: sat16_def)

lemma sint16_of_int: "-32768 \<le> x \<Longrightarrow> x \<le> 32767 \<Longrightarrow> sint (word_of_int x :: i16) = x"
  by (simp add: sint_sbintrunc' signed_take_bit_int_eq_self)

lemma wrap32_eq: "wrap32 x = (x + 2^31) mod 2^32 - 2^31"
  by (simp add: wrap32_def sint_uint uint_word_of_int_eq signed_take_bit_eq_take_bit_shift
      take_bit_eq_mod mod_add_left_eq)

lemma wrap32_id: "-(2^31) \<le> x \<Longrightarrow> x < 2^31 \<Longrightarrow> wrap32 x = x"
  by (simp add: wrap32_eq)

lemma wrap32_fixed_iff: "wrap32 x = x \<longleftrightarrow> -(2^31) \<le> x \<and> x < 2^31"
proof
  assume "wrap32 x = x"
  moreover have "-(2^31) \<le> wrap32 x \<and> wrap32 x < 2^31"
    unfolding wrap32_eq by simp
  ultimately show "-(2^31) \<le> x \<and> x < 2^31" by simp
qed (simp add: wrap32_id)

lemma tbl_get_in_set: "tbl_get t i = Some v \<Longrightarrow> v \<in> set t"
  by (auto simp: tbl_get_def split: if_splits)

lemma of_char_tolower:
  "(of_char (c_tolower c) :: nat) =
     (if 65 \<le> (of_char c :: nat) \<and> (of_char c :: nat) \<le> 90 then of_char c + 32 else of_char c)"
  by (simp add: c_tolower_def)

lemma c_tolower_idem [simp]: "c_tolower (c_tolower c) = c_tolower c"
  by (simp add: c_tolower_def)

lemma c_tolower_eq_ctrl [simp]:
  "(of_char d :: nat) < 65 \<Longrightarrow> c_tolower c = d \<longleftrightarrow> c = d"
proof -
  assume d: "(of_char d :: nat) < 65"
  have "c_tolower c = d \<longleftrightarrow> (of_char (c_tolower c) :: nat) = of_char d"
    by (metis of_char_eq_iff)
  also have "\<dots> \<longleftrightarrow> (of_char c :: nat) = of_char d"
    using d by (auto simp: of_char_tolower)
  also have "\<dots> \<longleftrightarrow> c = d"
    by (metis of_char_eq_iff)
  finally show ?thesis .
qed

lemma filter_fst_notin [simp]: "a \<notin> set (map fst h) \<Longrightarrow> filter (\<lambda>b. fst b \<noteq> a) h = h"
  by (induction h) auto

lemma round_up_eq:
  assumes n: "0 < (n::nat)"
  shows "(x + (n - 1)) div n * n = x \<longleftrightarrow> x mod n = 0"
proof -
  define q r where "q = x div n" and "r = x mod n"
  have x: "x = n * q + r" and r: "r < n" using n by (simp_all add: q_def r_def)
  show ?thesis
  proof (cases "r = 0")
    case True
    then have "(x + (n - 1)) div n = q" using x n by (intro div_nat_eqI) auto
    then show ?thesis using True x by (simp add: r_def [symmetric] mult.commute)
  next
    case False
    then have "(x + (n - 1)) div n = Suc q" using x r n by (intro div_nat_eqI) auto
    then show ?thesis using False x r by (simp add: r_def [symmetric])
  qed
qed

lemma round_up_ge:
  assumes "0 < (n::nat)" shows "x \<le> (x + (n - 1)) div n * n \<and> (x + (n - 1)) div n * n \<le> x + (n - 1)"
proof -
  have "(x + (n - 1)) mod n < n" using assms by simp
  moreover have "(x + (n - 1)) div n * n = x + (n - 1) - (x + (n - 1)) mod n" by (simp add: minus_mod_eq_div_mult)
  ultimately show ?thesis by linarith
qed

end
