(* ===== verification/Sequence.thy ===== *)
theory Sequence
  imports Prelude
begin

text \<open>
  The alphabet codec of \<open>src/src/commons/Sequence.cpp\<close>: the \<open>Sequence\<close> object, its
  constructor, \<open>mapSequence\<close> with its protein and nucleotide loops, \<open>print\<close>, and
  the k-mer cursor \<open>hasNextKmer\<close>/\<open>nextKmer\<close>. The character-to-code table
  \<open>aa2int\<close> is an \<open>int\<close> array indexed by the (signed) character; the encoded
  buffer \<open>int_sequence\<close> has the capacity \<open>maxLen\<close> fixed at construction and is
  written by index. Each \<open>exit(1)\<close> of the source is an error value, and so is
  each array access outside its allocation (undefined behaviour in C).
\<close>

subsection \<open>State and errors\<close>

record sequence =
  int_sequence :: "int list"
  aa2int :: "int list"
  int2aa :: "char list"
  maxLen :: nat
  nucleotideSequence :: int
  seq_id :: int
  dbKey :: string
  L :: nat
  currItPos :: int

text \<open>Why one character cannot be encoded (before its position is known).\<close>

datatype enc_error = Illegal char | TableOutOfRange int

text \<open>Why \<open>mapSequence\<close> stops: the two \<open>exit(1)\<close> branches and the two accesses
  outside an allocation.\<close>

datatype seq_error =
    IllegalChar char nat
  | SeqTooLong nat
  | TableReadOutOfRange int
  | BufferWriteOutOfRange nat

definition pos_error :: "nat \<Rightarrow> enc_error \<Rightarrow> seq_error" where
  "pos_error pos e = (case e of Illegal c \<Rightarrow> IllegalChar c pos | TableOutOfRange i \<Rightarrow> TableReadOutOfRange i)"

text \<open>The constructor (lines 3--12). \<open>new int[maxLen]\<close> leaves the buffer
  uninitialised, and the constructor never assigns \<open>id\<close>, \<open>dbKey\<close> and \<open>L\<close>: what
  they hold is whatever the memory held, here the parameters \<open>buf0\<close>, \<open>id0\<close>,
  \<open>key0\<close> and \<open>l0\<close>, so a fact about a fresh object holds for all of their values.\<close>

definition Sequence ::
  "nat \<Rightarrow> int list \<Rightarrow> char list \<Rightarrow> int \<Rightarrow> (nat \<Rightarrow> int) \<Rightarrow> int \<Rightarrow> string \<Rightarrow> nat \<Rightarrow> sequence" where
  "Sequence mx a2i i2a nuc buf0 id0 key0 l0 =
     \<lparr>int_sequence = map buf0 [0..<mx], aa2int = a2i, int2aa = i2a, maxLen = mx,
      nucleotideSequence = nuc, seq_id = id0, dbKey = key0, L = l0, currItPos = -1\<rparr>"

subsection \<open>Encoding one character\<close>

text \<open>\<open>this->aa2int[x]\<close>.\<close>

definition tbl_read :: "int list \<Rightarrow> int \<Rightarrow> enc_error + int" where
  "tbl_read t i = (case tbl_get t i of None \<Rightarrow> Inl (TableOutOfRange i) | Some v \<Rightarrow> Inr v)"

text \<open>The body of the loop of \<open>mapProteinSequence\<close> (lines 80--95).\<close>

definition encode_protein :: "int list \<Rightarrow> char \<Rightarrow> enc_error + int" where
  "encode_protein a2i ch =
     (if ch = CHR ''J'' then tbl_read a2i (schar CHR ''L'')
      else if ch = CHR ''O'' then tbl_read a2i (schar CHR ''X'')
      else if ch = CHR ''Z'' then tbl_read a2i (schar CHR ''E'')
      else if ch = CHR ''B'' then tbl_read a2i (schar CHR ''D'')
      else if ch = CHR ''U'' then tbl_read a2i (schar CHR ''X'')
      else if schar CHR ''Z'' < schar ch then Inl (Illegal ch)
      else (case tbl_read a2i (schar ch) of
              Inl e \<Rightarrow> Inl e
            | Inr v \<Rightarrow> if v = -1 then Inl (Illegal ch) else Inr v))"

text \<open>The body of the loop of \<open>mapNucleotideSequence\<close> (lines 35--63).\<close>

definition encode_nucleotide :: "int list \<Rightarrow> char \<Rightarrow> enc_error + int" where
  "encode_nucleotide a2i c0 =
     (let ch = c_tolower c0 in
      if ch = CHR ''u'' then tbl_read a2i (schar CHR ''t'')
      else if ch = CHR ''w'' then tbl_read a2i (schar CHR ''a'')
      else if ch = CHR ''s'' then tbl_read a2i (schar CHR ''c'')
      else if ch = CHR ''m'' then tbl_read a2i (schar CHR ''a'')
      else if ch = CHR ''k'' then tbl_read a2i (schar CHR ''g'')
      else if ch = CHR ''r'' then tbl_read a2i (schar CHR ''a'')
      else if ch = CHR ''y'' then tbl_read a2i (schar CHR ''c'')
      else if ch = CHR ''b'' then tbl_read a2i (schar CHR ''c'')
      else if ch = CHR ''d'' then tbl_read a2i (schar CHR ''a'')
      else if ch = CHR ''h'' then tbl_read a2i (schar CHR ''a'')
      else if ch = CHR ''v'' then tbl_read a2i (schar CHR ''a'')
      else if schar ch < schar CHR ''a'' \<or> schar CHR ''z'' < schar ch then Inl (Illegal ch)
      else (case tbl_read a2i (schar ch) of
              Inl e \<Rightarrow> Inl e
            | Inr v \<Rightarrow> if v = -1 then Inl (Illegal ch) else Inr v))"

subsection \<open>The mapping loop\<close>

text \<open>
  Both \<open>mapNucleotideSequence\<close> and \<open>mapProteinSequence\<close> run the same loop over
  the characters up to the terminating NUL, with their own per-character encoder:
  skip a newline; otherwise encode, store at \<open>int_sequence[l]\<close>, increment \<open>l\<close>
  and stop when \<open>l \<ge> maxLen\<close>. \<open>pos\<close> counts every character, newlines included.
\<close>

fun map_loop ::
  "(char \<Rightarrow> enc_error + int) \<Rightarrow> nat \<Rightarrow> char list \<Rightarrow> nat \<Rightarrow> nat \<Rightarrow> int list
     \<Rightarrow> seq_error + (int list \<times> nat)" where
  "map_loop enc mx [] pos l buf = Inr (buf, l)"
| "map_loop enc mx (c # cs) pos l buf =
     (if c = newline then map_loop enc mx cs (Suc pos) l buf
      else (case enc c of
              Inl e \<Rightarrow> Inl (pos_error pos e)
            | Inr v \<Rightarrow>
                if l < length buf then
                  (if mx \<le> Suc l then Inl (SeqTooLong mx)
                   else map_loop enc mx cs (Suc pos) (Suc l) (buf[l := v]))
                else Inl (BufferWriteOutOfRange l)))"

definition mapProteinSequence :: "sequence \<Rightarrow> char list \<Rightarrow> seq_error + sequence" where
  "mapProteinSequence s str =
     (case map_loop (encode_protein (aa2int s)) (maxLen s) (c_string str) 0 0 (int_sequence s) of
        Inl e \<Rightarrow> Inl e
      | Inr (buf, l) \<Rightarrow> Inr (s\<lparr>int_sequence := buf, L := l\<rparr>))"

definition mapNucleotideSequence :: "sequence \<Rightarrow> char list \<Rightarrow> seq_error + sequence" where
  "mapNucleotideSequence s str =
     (case map_loop (encode_nucleotide (aa2int s)) (maxLen s) (c_string str) 0 0 (int_sequence s) of
        Inl e \<Rightarrow> Inl e
      | Inr (buf, l) \<Rightarrow> Inr (s\<lparr>int_sequence := buf, L := l\<rparr>))"

definition mapSequence :: "sequence \<Rightarrow> int \<Rightarrow> string \<Rightarrow> char list \<Rightarrow> seq_error + sequence" where
  "mapSequence s i key str =
     (let s1 = s\<lparr>seq_id := i, dbKey := key\<rparr> in
      case (if nucleotideSequence s1 = 0 then mapProteinSequence s1 str
            else mapNucleotideSequence s1 str) of
        Inl e \<Rightarrow> Inl e
      | Inr s2 \<Rightarrow> Inr (s2\<lparr>currItPos := -1\<rparr>))"

subsection \<open>Printing\<close>

text \<open>The residue line of \<open>print()\<close>: \<open>int2aa[int_sequence[i]]\<close> for \<open>i < L\<close>;
  \<open>None\<close> if a code indexes outside \<open>int2aa\<close>.\<close>

definition print_residues :: "sequence \<Rightarrow> char list option" where
  "print_residues s =
     (let cs = map (\<lambda>i. tbl_get (int2aa s) (int_sequence s ! i)) [0..<L s] in
      if None \<in> set cs then None else Some (map the cs))"

subsection \<open>The k-mer cursor\<close>

definition hasNextKmer :: "sequence \<Rightarrow> int \<Rightarrow> bool" where
  "hasNextKmer s k = (currItPos s + 1 + k \<le> int (L s))"

text \<open>\<open>nextKmer\<close> returns \<open>&int_sequence[currItPos]\<close> after the increment, or the
  null pointer; the pointer is its offset.\<close>

definition nextKmer :: "sequence \<Rightarrow> int \<Rightarrow> sequence \<times> int option" where
  "nextKmer s k =
     (if hasNextKmer s k then (s\<lparr>currItPos := currItPos s + 1\<rparr>, Some (currItPos s + 1))
      else (s, None))"

text \<open>The client loop \<open>while (s.hasNextKmer(k)) p = s.nextKmer(k)\<close>: the offsets it
  is handed, in order.\<close>

function kmer_offsets :: "sequence \<Rightarrow> int \<Rightarrow> int list" where
  "kmer_offsets s k =
     (case nextKmer s k of
        (s', None) \<Rightarrow> []
      | (s', Some p) \<Rightarrow> p # kmer_offsets s' k)"
  by pat_completeness auto
termination
  by (relation "measure (\<lambda>(s, k). nat (int (L s) - k - currItPos s))")
     (auto simp: nextKmer_def hasNextKmer_def split: if_splits)

declare kmer_offsets.simps [simp del]

text \<open>The window a returned pointer gives access to: \<open>k\<close> codes from the offset.\<close>

definition kmer_at :: "sequence \<Rightarrow> int \<Rightarrow> int \<Rightarrow> int list" where
  "kmer_at s k p = take (nat k) (drop (nat p) (int_sequence s))"

subsection \<open>Specification-level notions\<close>

text \<open>The characters the loops encode: those before the NUL that are not newlines.\<close>

abbreviation residues :: "char list \<Rightarrow> char list" where
  "residues cs \<equiv> filter (\<lambda>c. c \<noteq> newline) cs"

text \<open>The encoder \<open>mapSequence\<close> dispatches to.\<close>

definition seq_encoder :: "sequence \<Rightarrow> char \<Rightarrow> enc_error + int" where
  "seq_encoder s =
     (if nucleotideSequence s = 0 then encode_protein (aa2int s) else encode_nucleotide (aa2int s))"

text \<open>The representation invariant of a \<open>Sequence\<close>: the buffer keeps its capacity
  and the occupancy \<open>L\<close> stays below it (\<open>0 \<le> L < maxLen\<close> of the spec, with
  \<open>L = 0\<close> allowed for a zero-capacity object).\<close>

definition seq_wf :: "sequence \<Rightarrow> bool" where
  "seq_wf s \<longleftrightarrow> length (int_sequence s) = maxLen s \<and> (L s < maxLen s \<or> L s = 0)"

text \<open>Every stored code indexes the score table's alphabet.\<close>

definition codes_valid :: "int \<Rightarrow> sequence \<Rightarrow> bool" where
  "codes_valid alph s \<longleftrightarrow> (\<forall>i < L s. 0 \<le> int_sequence s ! i \<and> int_sequence s ! i < alph)"

text \<open>A codec table whose entries are \<open>-1\<close> (unmapped) or alphabet codes.\<close>

definition table_ok :: "int \<Rightarrow> int list \<Rightarrow> bool" where
  "table_ok alph t \<longleftrightarrow> (\<forall>v \<in> set t. v = -1 \<or> 0 \<le> v \<and> v < alph)"

text \<open>The letters the ambiguity codes are rewritten to are mapped by the table.\<close>

definition subst_targets :: "int \<Rightarrow> char list" where
  "subst_targets nuc = (if nuc = 0 then ''LXED'' else ''tacg'')"

definition targets_ok :: "int \<Rightarrow> int list \<Rightarrow> bool" where
  "targets_ok nuc t \<longleftrightarrow>
     (\<forall>c \<in> set (subst_targets nuc). case tbl_get t (schar c) of None \<Rightarrow> False | Some v \<Rightarrow> v \<noteq> -1)"

text \<open>The canonical residue of a protein letter (\<open>J\<rightarrow>L, O\<rightarrow>X, Z\<rightarrow>E, B\<rightarrow>D, U\<rightarrow>X\<close>).\<close>

definition canon_protein :: "char \<Rightarrow> char" where
  "canon_protein c =
     (if c = CHR ''J'' then CHR ''L'' else if c = CHR ''O'' then CHR ''X''
      else if c = CHR ''Z'' then CHR ''E'' else if c = CHR ''B'' then CHR ''D''
      else if c = CHR ''U'' then CHR ''X'' else c)"

text \<open>All windows of width \<open>k\<close> of a list, left to right: the abstract k-mer sequence.\<close>

fun windows :: "nat \<Rightarrow> 'a list \<Rightarrow> 'a list list" where
  "windows k [] = (if k = 0 then [[]] else [])"
| "windows k (x # xs) = (if length (x # xs) < k then [] else take k (x # xs) # windows k xs)"

subsection \<open>External interface: the codec tables\<close>

text \<open>
  The tables \<open>aa2int\<close>/\<open>int2aa\<close> come from the substitution matrix object (not part
  of these sources): \<open>int2aa\<close> is the alphabet string and \<open>aa2int\<close> a 128-entry
  array, \<open>-1\<close> everywhere but at the alphabet's letters, which map to their rank.
\<close>

definition codec_table :: "char list \<Rightarrow> int list" where
  "codec_table alph = fold (\<lambda>(i, c) t. t[nat (schar c) := int i]) (enumerate 0 alph) (replicate 128 (-1))"

text \<open>Fixtures for the witnesses: a protein codec over the 21-letter alphabet of the
  substitution matrices, and a nucleotide codec, each a freshly constructed object
  whose uninitialised memory happens to read zero.\<close>

definition protein_alphabet :: "char list" where
  "protein_alphabet = ''ARNDCQEGHILKMFPSTWYVX''"

abbreviation prot_seq :: "nat \<Rightarrow> sequence" where
  "prot_seq mx \<equiv> Sequence mx (codec_table protein_alphabet) protein_alphabet 0 (\<lambda>_. 0) 0 [] 0"

abbreviation nuc_seq :: "nat \<Rightarrow> sequence" where
  "nuc_seq mx \<equiv> Sequence mx (codec_table ''acgtn'') ''acgtn'' 1 (\<lambda>_. 0) 0 [] 0"

subsection \<open>Lemmas: the mapping loop\<close>

lemma map_loop_Inr_iff:
  "length buf = mx \<Longrightarrow>
   map_loop enc mx cs pos l buf = Inr (buf', l') \<longleftrightarrow>
     (\<forall>c\<in>set (residues cs). \<not> isl (enc c)) \<and>
     (residues cs = [] \<or> l + length (residues cs) < mx) \<and>
     buf' = list_write buf l (map (projr \<circ> enc) (residues cs)) \<and>
     l' = l + length (residues cs)"
proof (induction cs arbitrary: pos l buf)
  case Nil
  then show ?case by auto
next
  case (Cons c cs)
  show ?case
  proof (cases "c = newline")
    case True
    with Cons show ?thesis by simp
  next
    case False
    show ?thesis
    proof (cases "enc c")
      case (Inl e)
      with False show ?thesis by simp
    next
      case (Inr v)
      show ?thesis
      proof (cases "l < length buf \<and> \<not> mx \<le> Suc l")
        case True
        then have "length (buf[l := v]) = mx" using Cons.prems by simp
        from Cons.IH [where l = "Suc l" and pos = "Suc pos", OF this] True False Inr
        show ?thesis by (auto simp: list_write_Cons)
      next
        case False
        with \<open>c \<noteq> newline\<close> Inr Cons.prems show ?thesis by auto
      qed
    qed
  qed
qed

lemma map_loop_too_long:
  "length buf = mx \<Longrightarrow> l < mx \<Longrightarrow> \<forall>c\<in>set (residues cs). \<not> isl (enc c) \<Longrightarrow>
   mx \<le> l + length (residues cs) \<Longrightarrow> map_loop enc mx cs pos l buf = Inl (SeqTooLong mx)"
proof (induction cs arbitrary: pos l buf)
  case (Cons c cs)
  then show ?case
    by (cases "enc c") (auto simp: Suc_le_eq)
qed simp

lemma map_loop_map:
  assumes "\<And>c. enc' (f c) = enc c" and "\<And>c. f c = newline \<longleftrightarrow> c = newline"
  shows "map_loop enc' mx (map f cs) pos l buf = map_loop enc mx cs pos l buf"
  by (induction cs arbitrary: pos l buf) (simp_all add: assms split: sum.split)

lemma c_string_map:
  assumes "\<And>c. f c = CHR 0x00 \<longleftrightarrow> c = CHR 0x00"
  shows "c_string (map f s) = map f (c_string s)"
  by (induction s) (simp_all add: c_string_def assms)

lemma mapSequence_eq:
  "mapSequence s i key str =
     (case map_loop (seq_encoder s) (maxLen s) (c_string str) 0 0 (int_sequence s) of
        Inl e \<Rightarrow> Inl e
      | Inr (buf, l) \<Rightarrow> Inr (s\<lparr>int_sequence := buf, seq_id := i, dbKey := key, L := l, currItPos := -1\<rparr>))"
  by (simp add: mapSequence_def mapProteinSequence_def mapNucleotideSequence_def seq_encoder_def
      split: sum.split prod.split)

lemma take_list_write_0:
  "length xs \<le> length buf \<Longrightarrow> take (length xs) (list_write buf 0 xs) = xs"
  using take_list_write [of 0 xs buf] by simp

lemma tbl_read_Inr: "tbl_read t x = Inr v \<longleftrightarrow> tbl_get t x = Some v"
  by (simp add: tbl_read_def split: option.split)

lemma tbl_read_range:
  "table_ok alph t \<Longrightarrow> tbl_read t x = Inr v \<Longrightarrow> v \<noteq> -1 \<Longrightarrow> 0 \<le> v \<and> v < alph"
  by (auto simp: tbl_read_Inr table_ok_def dest!: tbl_get_in_set)

lemma tbl_read_target:
  "targets_ok nuc t \<Longrightarrow> d \<in> set (subst_targets nuc) \<Longrightarrow> tbl_read t (schar d) = Inr v \<Longrightarrow> v \<noteq> -1"
  by (auto simp: targets_ok_def tbl_read_Inr)

lemma encode_protein_range:
  assumes "table_ok alph t" and "targets_ok 0 t" and "encode_protein t c = Inr v"
  shows "0 \<le> v \<and> v < alph"
proof -
  have "v \<noteq> -1"
  proof -
    have "\<exists>d \<in> set (subst_targets 0). tbl_read t (schar d) = Inr v \<or> v \<noteq> -1"
      using assms(3) unfolding encode_protein_def subst_targets_def
      by (auto split: if_splits sum.splits)
    then show ?thesis using tbl_read_target [OF assms(2)] by blast
  qed
  moreover have "\<exists>x. tbl_read t x = Inr v"
    using assms(3) unfolding encode_protein_def by (auto split: if_splits sum.splits)
  ultimately show ?thesis using tbl_read_range [OF assms(1)] by blast
qed

lemma encode_nucleotide_range:
  assumes "table_ok alph t" and "targets_ok nuc t" and "nuc \<noteq> 0" and "encode_nucleotide t c = Inr v"
  shows "0 \<le> v \<and> v < alph"
proof -
  have "v \<noteq> -1"
  proof -
    have "\<exists>d \<in> set (subst_targets nuc). tbl_read t (schar d) = Inr v \<or> v \<noteq> -1"
      using assms(3,4) unfolding encode_nucleotide_def subst_targets_def Let_def
      by (auto split: if_splits sum.splits)
    then show ?thesis using tbl_read_target [OF assms(2)] by blast
  qed
  moreover have "\<exists>x. tbl_read t x = Inr v"
    using assms(4) unfolding encode_nucleotide_def Let_def by (auto split: if_splits sum.splits)
  ultimately show ?thesis using tbl_read_range [OF assms(1)] by blast
qed

lemma seq_encoder_range:
  assumes "table_ok alph (aa2int s)" and "targets_ok (nucleotideSequence s) (aa2int s)"
    and "seq_encoder s c = Inr v"
  shows "0 \<le> v \<and> v < alph"
proof (cases "nucleotideSequence s = 0")
  case True
  with assms show ?thesis
    using encode_protein_range [of alph "aa2int s" c v] by (simp add: seq_encoder_def)
next
  case False
  with assms show ?thesis
    using encode_nucleotide_range [of alph "aa2int s" "nucleotideSequence s" c v]
    by (simp add: seq_encoder_def)
qed

lemma encode_nucleotide_tolower: "encode_nucleotide t (c_tolower c) = encode_nucleotide t c"
  by (simp add: encode_nucleotide_def)

lemma mapSequence_Inr_iff_len:
  assumes len: "length (int_sequence s) = maxLen s"
  shows "mapSequence s i key str = Inr s' \<longleftrightarrow>
    (\<forall>c\<in>set (residues (c_string str)). \<not> isl (seq_encoder s c)) \<and>
    (residues (c_string str) = [] \<or> length (residues (c_string str)) < maxLen s) \<and>
    s' = s\<lparr>int_sequence := list_write (int_sequence s) 0 (map (projr \<circ> seq_encoder s) (residues (c_string str))),
           seq_id := i, dbKey := key, L := length (residues (c_string str)), currItPos := -1\<rparr>"
    (is "_ \<longleftrightarrow> ?ok \<and> ?fits \<and> s' = ?s2")
proof -
  let ?ml = "map_loop (seq_encoder s) (maxLen s) (c_string str) 0 0 (int_sequence s)"
  let ?xs = "map (projr \<circ> seq_encoder s) (residues (c_string str))"
  note iff = map_loop_Inr_iff [OF len, of "seq_encoder s" "c_string str" 0 0]
  show ?thesis
  proof (cases "?ok \<and> ?fits")
    case True
    then have "?ml = Inr (list_write (int_sequence s) 0 ?xs, length (residues (c_string str)))"
      using iff by simp
    then have "mapSequence s i key str = Inr ?s2" by (simp add: mapSequence_eq)
    with True show ?thesis by (simp add: eq_commute)
  next
    case False
    have "mapSequence s i key str \<noteq> Inr x" for x
    proof
      assume "mapSequence s i key str = Inr x"
      then obtain buf l where "?ml = Inr (buf, l)"
        by (auto simp: mapSequence_eq split: sum.splits)
      with iff [where buf' = buf and l' = l] False show False by simp
    qed
    with False show ?thesis by auto
  qed
qed

lemma nextKmer_fields:
  "int_sequence (fst (nextKmer s k)) = int_sequence s \<and> L (fst (nextKmer s k)) = L s \<and>
   maxLen (fst (nextKmer s k)) = maxLen s"
  by (simp add: nextKmer_def)

lemma mapSequence_Inr_iff:
  assumes "seq_wf s"
  shows "mapSequence s i key str = Inr s' \<longleftrightarrow>
    (\<forall>c\<in>set (residues (c_string str)). \<not> isl (seq_encoder s c)) \<and>
    (residues (c_string str) = [] \<or> length (residues (c_string str)) < maxLen s) \<and>
    s' = s\<lparr>int_sequence := list_write (int_sequence s) 0 (map (projr \<circ> seq_encoder s) (residues (c_string str))),
           seq_id := i, dbKey := key, L := length (residues (c_string str)), currItPos := -1\<rparr>"
  using assms by (simp add: seq_wf_def mapSequence_Inr_iff_len)

lemma mapSequence_wf:
  assumes "length (int_sequence s) = maxLen s" and "mapSequence s i key str = Inr s'"
  shows "seq_wf s'"
  using assms by (auto simp: seq_wf_def mapSequence_Inr_iff_len)

text \<open>C5 (invariant). The representation invariant of a \<open>Sequence\<close> (the buffer keeps its
  capacity \<open>maxLen\<close>, \<open>0 \<le> L < maxLen\<close>) is not established by the constructor, which
  leaves \<open>L\<close> uninitialised, but by the first successful \<open>mapSequence\<close> on a fresh object,
  whatever its uninitialised fields hold; every later successful \<open>mapSequence\<close> and every
  \<open>nextKmer\<close> preserve it.\<close>

theorem seq_wf_preserved:
  "(mapSequence (Sequence mx a2i i2a nuc ubuf uid ukey ul) i key str = Inr sf \<longrightarrow> seq_wf sf) \<and>
   (seq_wf s \<longrightarrow> mapSequence s i key str = Inr s' \<longrightarrow> seq_wf s') \<and>
   (seq_wf s \<longrightarrow> seq_wf (fst (nextKmer s k)))"
proof (intro conjI impI)
  show "seq_wf sf" if "mapSequence (Sequence mx a2i i2a nuc ubuf uid ukey ul) i key str = Inr sf"
    using mapSequence_wf [OF _ that] by (simp add: Sequence_def)
  show "seq_wf s'" if "seq_wf s" "mapSequence s i key str = Inr s'"
    using mapSequence_wf [OF _ that(2)] that(1) by (simp add: seq_wf_def)
  show "seq_wf (fst (nextKmer s k))" if "seq_wf s"
    using that by (simp add: seq_wf_def nextKmer_fields)
qed

lemma mapSequence_prefix:
  assumes "seq_wf s" and "mapSequence s i key str = Inr s'"
  shows "take (L s') (int_sequence s') = map (projr \<circ> seq_encoder s) (residues (c_string str))"
    and "L s' \<le> length (int_sequence s')"
    and "\<forall>c\<in>set (residues (c_string str)). \<not> isl (seq_encoder s c)"
proof -
  let ?xs = "map (projr \<circ> seq_encoder s) (residues (c_string str))"
  from assms(2) have s': "s' = s\<lparr>int_sequence := list_write (int_sequence s) 0 ?xs,
      seq_id := i, dbKey := key, L := length (residues (c_string str)), currItPos := -1\<rparr>"
    and fits: "residues (c_string str) = [] \<or> length (residues (c_string str)) < maxLen s"
    and ok: "\<forall>c\<in>set (residues (c_string str)). \<not> isl (seq_encoder s c)"
    by (simp_all add: mapSequence_Inr_iff [OF assms(1)])
  have le: "length ?xs \<le> length (int_sequence s)" using fits assms(1) by (auto simp: seq_wf_def)
  then show "take (L s') (int_sequence s') = ?xs"
    using take_list_write_0 [of ?xs "int_sequence s"] by (simp add: s')
  from le show "L s' \<le> length (int_sequence s')" by (simp add: s')
  from ok show "\<forall>c\<in>set (residues (c_string str)). \<not> isl (seq_encoder s c)" .
qed

text \<open>C6 (type). With a codec table whose entries are \<open>-1\<close> or alphabet codes and which maps the letters the ambiguity codes are rewritten to, every code \<open>mapSequence\<close> stores at positions \<open>0..L-1\<close> is a valid index into the alphabet.\<close>

theorem mapSequence_codes_valid:
  assumes "seq_wf s" and "table_ok alph (aa2int s)" and "targets_ok (nucleotideSequence s) (aa2int s)"
    and "mapSequence s i key str = Inr s'"
  shows "codes_valid alph s'"
  unfolding codes_valid_def
proof (intro allI impI)
  fix j assume j: "j < L s'"
  let ?rs = "residues (c_string str)"
  note pre = mapSequence_prefix [OF assms(1,4)]
  have jl: "j < length ?rs" using j pre(1) pre(2)
    by (metis length_map length_take min.absorb2)
  have "int_sequence s' ! j = take (L s') (int_sequence s') ! j" using j by simp
  also have "\<dots> = projr (seq_encoder s (?rs ! j))" using pre(1) jl by simp
  finally have eq: "int_sequence s' ! j = projr (seq_encoder s (?rs ! j))" .
  have "\<not> isl (seq_encoder s (?rs ! j))" using pre(3) jl nth_mem by blast
  then have "seq_encoder s (?rs ! j) = Inr (int_sequence s' ! j)"
    using eq by (cases "seq_encoder s (?rs ! j)") simp_all
  then show "0 \<le> int_sequence s' ! j \<and> int_sequence s' ! j < alph"
    by (rule seq_encoder_range [OF assms(2,3)])
qed

text \<open>C8 (functional). In nucleotide mode encoding is case-insensitive: mapping the lower-cased text gives exactly the same result (sequence or error) as mapping the text itself.\<close>

theorem mapSequence_case_insensitive:
  "nucleotideSequence s \<noteq> 0 \<Longrightarrow> mapSequence s i key (map c_tolower str) = mapSequence s i key str"
proof -
  assume nuc: "nucleotideSequence s \<noteq> 0"
  have nul: "c_string (map c_tolower str) = map c_tolower (c_string str)"
    by (rule c_string_map) simp
  have "map_loop (seq_encoder s) mx (map c_tolower cs) pos l buf = map_loop (seq_encoder s) mx cs pos l buf"
    for mx cs pos l buf
    using nuc by (intro map_loop_map) (simp_all add: seq_encoder_def encode_nucleotide_tolower)
  then show ?thesis by (simp add: mapSequence_eq nul)
qed

text \<open>C9 (error). When every residue is legal but the input has at least \<open>maxLen\<close> residues, \<open>mapSequence\<close> fails with the \<open>Sequence too long\<close> error (the source's \<open>exit(1)\<close>): the last usable slot is \<open>maxLen - 2\<close>, so \<open>L \<le> maxLen - 1\<close>.\<close>

theorem mapSequence_too_long:
  assumes "seq_wf s" and "0 < maxLen s"
    and "\<forall>c\<in>set (residues (c_string str)). \<not> isl (seq_encoder s c)"
    and "maxLen s \<le> length (residues (c_string str))"
  shows "mapSequence s i key str = Inl (SeqTooLong (maxLen s))"
proof -
  have "length (int_sequence s) = maxLen s" using assms(1) by (simp add: seq_wf_def)
  from map_loop_too_long [OF this assms(2,3)] assms(4)
  show ?thesis by (simp add: mapSequence_eq)
qed

text \<open>C10 (error). In protein mode a byte \<open>\<ge> 128\<close> is a negative \<open>char\<close>; the only range check is \<open>curr > \<acute>Z\<acute>\<close>, so the code reads \<open>aa2int\<close> at a negative index (undefined behaviour) instead of reporting an illegal character.\<close>

theorem mapSequence_high_byte:
  assumes "nucleotideSequence s = 0" and "128 \<le> (of_char c :: nat)"
  shows "mapSequence s i key (c # str) = Inl (TableReadOutOfRange (schar c))"
proof -
  have neg: "schar c < 0" using assms(2) nat_of_char_less_256 [of c] by (simp add: schar_high)
  have ch: "c \<noteq> CHR ''J'' \<and> c \<noteq> CHR ''O'' \<and> c \<noteq> CHR ''Z'' \<and> c \<noteq> CHR ''B'' \<and> c \<noteq> CHR ''U'' \<and>
        c \<noteq> newline \<and> c \<noteq> CHR 0x00"
    using assms(2) by auto
  moreover have "\<not> schar CHR ''Z'' < schar c" using neg by (simp add: schar_def)
  ultimately have "encode_protein (aa2int s) c = Inl (TableOutOfRange (schar c))"
    using neg by (simp add: encode_protein_def tbl_read_def tbl_get_def)
  with assms(1) ch show ?thesis
    by (simp add: mapSequence_eq seq_encoder_def c_string_def pos_error_def)
qed

lemma upto_0_eq_map_int: "[0..j] = map int [0..<nat (j + 1)]"
  by (rule nth_equalityI) auto

lemma windows_eq:
  "0 < k \<Longrightarrow> windows k xs = map (\<lambda>i. take k (drop i xs)) [0..<Suc (length xs) - k]"
proof (induction xs)
  case Nil
  then show ?case by simp
next
  case (Cons x xs)
  show ?case
  proof (cases "length (x # xs) < k")
    case True
    then show ?thesis by simp
  next
    case False
    then have "Suc (length (x # xs)) - k = Suc (Suc (length xs) - k)" by simp
    then have "[0..<Suc (length (x # xs)) - k] = 0 # map Suc [0..<Suc (length xs) - k]"
      by (simp only: upt_conv_Cons map_Suc_upt)
    with False Cons show ?thesis by simp
  qed
qed

lemma kmer_offsets_eq: "kmer_offsets s k = [currItPos s + 1 .. int (L s) - k]"
proof (induction s k rule: kmer_offsets.induct)
  case (1 s k)
  show ?case
  proof (cases "hasNextKmer s k")
    case True
    then have "kmer_offsets s k = (currItPos s + 1) # kmer_offsets (s\<lparr>currItPos := currItPos s + 1\<rparr>) k"
      by (subst kmer_offsets.simps) (simp add: nextKmer_def)
    with True "1" show ?thesis
      by (simp add: nextKmer_def hasNextKmer_def upto_rec1)
  next
    case False
    then show ?thesis
      by (subst kmer_offsets.simps) (simp add: nextKmer_def hasNextKmer_def)
  qed
qed

text \<open>C11 (refinement). Driving the cursor from its reset position with a width \<open>0 < k\<close> yields, in order, exactly the windows of width \<open>k\<close> of the encoded residues \<open>int_sequence[0..L-1]\<close>.\<close>

theorem kmer_windows:
  assumes "0 < k" and "currItPos s = -1" and "L s \<le> length (int_sequence s)"
  shows "map (kmer_at s k) (kmer_offsets s k) = windows (nat k) (take (L s) (int_sequence s))"
proof -
  let ?buf = "int_sequence s"
  have "nat (int (L s) - k + 1) = Suc (L s) - nat k" using assms(1) by linarith
  then have offs: "kmer_offsets s k = map int [0..<Suc (L s) - nat k]"
    using assms(2) by (simp add: kmer_offsets_eq upto_0_eq_map_int)
  have "take (nat k) (drop i (take (L s) ?buf)) = take (nat k) (drop i ?buf)"
    if "i < Suc (L s) - nat k" for i
    using that by (simp add: take_drop min_def)
  then show ?thesis
    using assms(1,3) by (simp add: offs windows_eq kmer_at_def)
qed

text \<open>C12 (bounds). With width \<open>k = 0\<close> the cursor does not stop at the last residue: from its reset position it hands out the \<open>L + 1\<close> offsets \<open>0..L\<close>, the last one past the encoded data.\<close>

theorem kmer_offsets_zero_width:
  "currItPos s = -1 \<Longrightarrow> kmer_offsets s 0 = map int [0..<Suc (L s)]"
  by (simp add: kmer_offsets_eq upto_0_eq_map_int nat_add_distrib del: upt_Suc)

lemma map_nth_upt_take: "n \<le> length xs \<Longrightarrow> map (\<lambda>i. f (xs ! i)) [0..<n] = map f (take n xs)"
  by (rule nth_equalityI) auto

text \<open>C13 (roundtrip). If \<open>int2aa\<close> decodes the code of every residue of the input to its canonical letter, \<open>print\<close> after \<open>mapSequence\<close> reproduces the input residues, canonicalised, newlines dropped.\<close>

theorem print_residues_mapSequence:
  assumes "seq_wf s" and "mapSequence s i key str = Inr s'"
    and "\<forall>c\<in>set (residues (c_string str)). tbl_get (int2aa s) (projr (seq_encoder s c)) = Some (canon c)"
  shows "print_residues s' = Some (map canon (residues (c_string str)))"
proof -
  note pre = mapSequence_prefix [OF assms(1,2)]
  have i2a: "int2aa s' = int2aa s" using assms(2) by (simp add: mapSequence_Inr_iff [OF assms(1)])
  have "map (\<lambda>j. tbl_get (int2aa s') (int_sequence s' ! j)) [0..<L s']
        = map (tbl_get (int2aa s)) (map (projr \<circ> seq_encoder s) (residues (c_string str)))"
    using pre(1,2) by (simp add: map_nth_upt_take i2a)
  also have "\<dots> = map (Some \<circ> canon) (residues (c_string str))"
    using assms(3) by simp
  finally show ?thesis by (auto simp: print_residues_def)
qed

text \<open>C4 (functional). \<open>mapSequence\<close> succeeds exactly when every residue before the NUL
  (newlines skipped) is accepted by the encoder of the object's mode and the residues fit
  (fewer than \<open>maxLen\<close>); the result stores their codes from slot 0, sets \<open>L\<close> to their
  number, records \<open>id\<close> and \<open>dbKey\<close> and resets the k-mer cursor.\<close>

theorem mapSequence_result:
  assumes "seq_wf s"
  shows "mapSequence s i key str = Inr s' \<longleftrightarrow>
    (\<forall>c\<in>set (residues (c_string str)). \<not> isl (seq_encoder s c)) \<and>
    (residues (c_string str) = [] \<or> length (residues (c_string str)) < maxLen s) \<and>
    s' = s\<lparr>int_sequence := list_write (int_sequence s) 0 (map (projr \<circ> seq_encoder s) (residues (c_string str))),
           seq_id := i, dbKey := key, L := length (residues (c_string str)), currItPos := -1\<rparr>"
  by (rule mapSequence_Inr_iff [OF assms])

text \<open>C7 (functional). For an upper-case letter the protein encoder canonicalises the
  ambiguity codes (\<open>J\<rightarrow>L, O\<rightarrow>X, Z\<rightarrow>E, B\<rightarrow>D, U\<rightarrow>X\<close>) and maps every other letter to its
  own table entry, rejecting it when that entry is \<open>-1\<close>; the rewritten codes are
  stored without that check.\<close>

theorem encode_protein_letter:
  assumes "c \<in> set ''ABCDEFGHIJKLMNOPQRSTUVWXYZ''" and "90 < length t"
  shows "encode_protein t c =
    (if c \<notin> set ''JOZBU'' \<and> t ! of_char (canon_protein c) = -1 then Inl (Illegal c)
     else Inr (t ! of_char (canon_protein c)))"
proof -
  have rng: "65 \<le> (of_char c :: nat) \<and> (of_char c :: nat) \<le> 90" using assms(1) by auto
  show ?thesis
  proof (cases "c \<in> set ''JOZBU''")
    case True
    then show ?thesis using assms(2)
      by (auto simp: encode_protein_def canon_protein_def tbl_read_def tbl_get_def schar_def)
  next
    case False
    then have "canon_protein c = c" by (auto simp: canon_protein_def)
    moreover have "schar c = int (of_char c)" using rng by (simp add: schar_ascii)
    moreover have "tbl_read t (int (of_char c)) = Inr (t ! of_char c)"
      using rng assms(2) by (simp add: tbl_read_def tbl_get_def)
    moreover have "schar CHR ''Z'' = 90" by (simp add: schar_def)
    ultimately show ?thesis using False rng by (auto simp: encode_protein_def)
  qed
qed

subsection \<open>Witnesses\<close>

theorem mapSequence_result_witness:
  "seq_wf (prot_seq 16) \<and>
   mapSequence (prot_seq 16) 1 ''q'' ''AJ\<newline>C'' =
     Inr ((prot_seq 16)\<lparr>int_sequence := list_write (int_sequence (prot_seq 16)) 0 [0, 10, 4],
            seq_id := 1, dbKey := ''q'', L := 3, currItPos := -1\<rparr>)"
proof -
  have h: "seq_wf (prot_seq 16)" by code_simp
  have r: "(\<forall>c\<in>set (residues (c_string ''AJ\<newline>C'')). \<not> isl (seq_encoder (prot_seq 16) c)) \<and>
    (residues (c_string ''AJ\<newline>C'') = [] \<or> length (residues (c_string ''AJ\<newline>C'')) < maxLen (prot_seq 16)) \<and>
    map (projr \<circ> seq_encoder (prot_seq 16)) (residues (c_string ''AJ\<newline>C'')) = [0, 10, 4] \<and>
    length (residues (c_string ''AJ\<newline>C'')) = 3"
    by code_simp
  show ?thesis using h r mapSequence_result [OF h, of 1 "''q''" "''AJ\<newline>C''"] by (simp add: Sequence_def)
qed

theorem seq_wf_preserved_witness:
  "\<not> seq_wf (Sequence 16 (codec_table protein_alphabet) protein_alphabet 0 int 7 ''junk'' 1000) \<and>
   seq_wf (projr (mapSequence (Sequence 16 (codec_table protein_alphabet) protein_alphabet 0 int 7 ''junk'' 1000)
     1 ''q'' ''ACD'')) \<and>
   seq_wf (fst (nextKmer (projr (mapSequence (Sequence 16 (codec_table protein_alphabet) protein_alphabet 0 int 7
     ''junk'' 1000) 1 ''q'' ''ACD'')) 1))"
proof -
  let ?s0 = "Sequence 16 (codec_table protein_alphabet) protein_alphabet 0 int 7 ''junk'' 1000"
  let ?s1 = "projr (mapSequence ?s0 1 ''q'' ''ACD'')"
  have h0: "\<not> seq_wf ?s0" by (simp add: Sequence_def seq_wf_def)
  have h1: "mapSequence ?s0 1 ''q'' ''ACD'' = Inr ?s1" by code_simp
  have "seq_wf ?s1 \<and> seq_wf (fst (nextKmer ?s1 1))"
    using seq_wf_preserved [where mx = 16 and a2i = "codec_table protein_alphabet" and i2a = protein_alphabet
      and nuc = 0 and ubuf = int and uid = 7 and ukey = "''junk''" and ul = 1000 and i = 1 and key = "''q''"
      and str = "''ACD''" and sf = ?s1 and s = ?s1 and k = 1] h1 by blast
  with h0 show ?thesis by simp
qed

theorem mapSequence_codes_valid_witness:
  "seq_wf (prot_seq 16) \<and>
   mapSequence (prot_seq 16) 1 ''q'' ''AJOZ'' = Inr (projr (mapSequence (prot_seq 16) 1 ''q'' ''AJOZ'')) \<and>
   0 \<le> int_sequence (projr (mapSequence (prot_seq 16) 1 ''q'' ''AJOZ'')) ! 2 \<and>
   int_sequence (projr (mapSequence (prot_seq 16) 1 ''q'' ''AJOZ'')) ! 2 < 21"
proof -
  have h1: "seq_wf (prot_seq 16)" by code_simp
  have h2: "table_ok 21 (aa2int (prot_seq 16))" by code_simp
  have h3: "targets_ok (nucleotideSequence (prot_seq 16)) (aa2int (prot_seq 16))" by code_simp
  have h4: "mapSequence (prot_seq 16) 1 ''q'' ''AJOZ'' = Inr (projr (mapSequence (prot_seq 16) 1 ''q'' ''AJOZ''))"
    by code_simp
  have l: "L (projr (mapSequence (prot_seq 16) 1 ''q'' ''AJOZ'')) = 4" by code_simp
  from mapSequence_codes_valid [OF h1 h2 h3 h4] l
  have "0 \<le> int_sequence (projr (mapSequence (prot_seq 16) 1 ''q'' ''AJOZ'')) ! 2 \<and>
        int_sequence (projr (mapSequence (prot_seq 16) 1 ''q'' ''AJOZ'')) ! 2 < 21"
    by (simp add: codes_valid_def)
  with h1 h4 show ?thesis by simp
qed

theorem mapSequence_case_insensitive_witness:
  "nucleotideSequence (nuc_seq 8) \<noteq> 0 \<and>
   mapSequence (nuc_seq 8) 1 ''k'' ''ACGU'' = mapSequence (nuc_seq 8) 1 ''k'' ''acgt''"
proof -
  have h: "nucleotideSequence (nuc_seq 8) \<noteq> 0" by (simp add: Sequence_def)
  have "mapSequence (nuc_seq 8) 1 ''k'' ''ACGU'' = mapSequence (nuc_seq 8) 1 ''k'' (map c_tolower ''ACGU'')"
    by (rule sym, rule mapSequence_case_insensitive [OF h])
  also have "\<dots> = mapSequence (nuc_seq 8) 1 ''k'' ''acgt''" by code_simp
  finally show ?thesis using h by simp
qed

theorem mapSequence_too_long_witness:
  "seq_wf (prot_seq 3) \<and> 0 < maxLen (prot_seq 3) \<and>
   maxLen (prot_seq 3) \<le> length (residues (c_string ''ACD'')) \<and>
   mapSequence (prot_seq 3) 1 ''q'' ''ACD'' = Inl (SeqTooLong 3)"
proof -
  have h1: "seq_wf (prot_seq 3)" by code_simp
  have h2: "0 < maxLen (prot_seq 3)" by (simp add: Sequence_def)
  have h3: "\<forall>c\<in>set (residues (c_string ''ACD'')). \<not> isl (seq_encoder (prot_seq 3) c)" by code_simp
  have h4: "maxLen (prot_seq 3) \<le> length (residues (c_string ''ACD''))" by code_simp
  show ?thesis using h1 h2 h4 mapSequence_too_long [OF h1 h2 h3 h4] by (simp add: Sequence_def)
qed

theorem mapSequence_high_byte_witness:
  "nucleotideSequence (prot_seq 16) = 0 \<and> 128 \<le> (of_char (CHR 0xC8) :: nat) \<and>
   mapSequence (prot_seq 16) 1 ''q'' (CHR 0xC8 # ''A'') = Inl (TableReadOutOfRange (-56))"
proof -
  have h1: "nucleotideSequence (prot_seq 16) = 0" by (simp add: Sequence_def)
  have h2: "128 \<le> (of_char (CHR 0xC8) :: nat)" by simp
  have "schar (CHR 0xC8) = -56" by (simp add: schar_def)
  then show ?thesis using h1 h2 mapSequence_high_byte [OF h1 h2, of 1 "''q''" "''A''"] by simp
qed

theorem kmer_windows_witness:
  "0 < (3::int) \<and> currItPos (projr (mapSequence (prot_seq 16) 1 ''q'' ''ACDEF'')) = -1 \<and>
   L (projr (mapSequence (prot_seq 16) 1 ''q'' ''ACDEF'')) \<le> length (int_sequence (projr (mapSequence (prot_seq 16) 1 ''q'' ''ACDEF''))) \<and>
   map (kmer_at (projr (mapSequence (prot_seq 16) 1 ''q'' ''ACDEF'')) 3) (kmer_offsets (projr (mapSequence (prot_seq 16) 1 ''q'' ''ACDEF'')) 3) =
     [[0, 4, 3], [4, 3, 6], [3, 6, 13]]"
proof -
  have h1: "0 < (3::int)" by simp
  have h2: "currItPos (projr (mapSequence (prot_seq 16) 1 ''q'' ''ACDEF'')) = -1" by code_simp
  have h3: "L (projr (mapSequence (prot_seq 16) 1 ''q'' ''ACDEF'')) \<le> length (int_sequence (projr (mapSequence (prot_seq 16) 1 ''q'' ''ACDEF'')))"
    by code_simp
  have w: "windows (nat 3) (take (L (projr (mapSequence (prot_seq 16) 1 ''q'' ''ACDEF'')))
             (int_sequence (projr (mapSequence (prot_seq 16) 1 ''q'' ''ACDEF'')))) = [[0, 4, 3], [4, 3, 6], [3, 6, 13]]"
    by code_simp
  show ?thesis using h1 h2 h3 w kmer_windows [OF h1 h2 h3] by simp
qed

theorem kmer_offsets_zero_width_witness:
  "currItPos (projr (mapSequence (prot_seq 16) 1 ''q'' ''ACD'')) = -1 \<and>
   kmer_offsets (projr (mapSequence (prot_seq 16) 1 ''q'' ''ACD'')) 0 = [0, 1, 2, 3]"
proof -
  have h: "currItPos (projr (mapSequence (prot_seq 16) 1 ''q'' ''ACD'')) = -1" by code_simp
  have l: "L (projr (mapSequence (prot_seq 16) 1 ''q'' ''ACD'')) = 3" by code_simp
  have "map int [0..<Suc 3] = [0, 1, 2, 3]" by code_simp
  then show ?thesis using h kmer_offsets_zero_width [OF h] by (simp add: l)
qed

theorem print_residues_mapSequence_witness:
  "seq_wf (prot_seq 16) \<and>
   mapSequence (prot_seq 16) 1 ''q'' ''AJC'' = Inr (projr (mapSequence (prot_seq 16) 1 ''q'' ''AJC'')) \<and>
   print_residues (projr (mapSequence (prot_seq 16) 1 ''q'' ''AJC'')) = Some ''ALC''"
proof -
  have h1: "seq_wf (prot_seq 16)" by code_simp
  have h2: "mapSequence (prot_seq 16) 1 ''q'' ''AJC'' = Inr (projr (mapSequence (prot_seq 16) 1 ''q'' ''AJC''))"
    by code_simp
  have h3: "\<forall>c\<in>set (residues (c_string ''AJC'')).
      tbl_get (int2aa (prot_seq 16)) (projr (seq_encoder (prot_seq 16) c)) = Some (canon_protein c)"
    by code_simp
  have "map canon_protein (residues (c_string ''AJC'')) = ''ALC''" by code_simp
  then show ?thesis using h1 h2 print_residues_mapSequence [OF h1 h2 h3] by simp
qed

theorem encode_protein_letter_witness:
  "CHR ''J'' \<in> set ''ABCDEFGHIJKLMNOPQRSTUVWXYZ'' \<and> 90 < length (codec_table protein_alphabet) \<and>
   encode_protein (codec_table protein_alphabet) (CHR ''J'') = Inr 10"
proof -
  have h1: "CHR ''J'' \<in> set ''ABCDEFGHIJKLMNOPQRSTUVWXYZ''" by simp
  have h2: "90 < length (codec_table protein_alphabet)" by code_simp
  have "codec_table protein_alphabet ! of_char (canon_protein (CHR ''J'')) = 10" by code_simp
  then show ?thesis using h1 h2 encode_protein_letter [OF h1 h2] by (simp add: canon_protein_def)
qed

end
