(* ===== verification/KmerLoop.thy ===== *)
theory KmerLoop
  imports Sequence
begin

text \<open>
  The k-mer cursor of \<open>Sequence\<close> (\<open>hasNextKmer\<close>/\<open>nextKmer\<close>,
  \<open>src/src/commons/Sequence.cpp\<close>, lines 114--128) with its C \<open>int\<close> arithmetic, driven
  by the loop its callers write, \<open>while (s.hasNextKmer(k)) s.nextKmer(k)\<close>. The sums
  \<open>(currItPos + 1) + kmerSize\<close> and \<open>currItPos += 1\<close> are evaluated in 32-bit \<open>int\<close>; a
  sum outside \<open>[-2^31, 2^31)\<close> is signed overflow, undefined behaviour in C, and here the
  error value \<open>IntOverflow\<close>. The loop is a \<open>partial_function (option)\<close>: \<open>None\<close> would be
  a loop that never stops. It stops normally for every reset cursor and every
  non-negative \<open>k\<close> of an object whose length fits in an \<open>int\<close>, with the cursor at
  \<open>L - k\<close>; for \<open>k = INT_MIN\<close> the cursor overflows instead.
\<close>

datatype kmer_error = IntOverflow

text \<open>Addition of two C \<open>int\<close> values.\<close>

definition int32_add :: "int \<Rightarrow> int \<Rightarrow> kmer_error + int" where
  "int32_add a b = (if - (2 ^ 31) \<le> a + b \<and> a + b < 2 ^ 31 then Inr (a + b) else Inl IntOverflow)"

text \<open>\<open>hasNextKmer\<close> (lines 114--119) in \<open>int\<close> arithmetic.\<close>

definition hasNextKmer32 :: "sequence \<Rightarrow> int \<Rightarrow> kmer_error + bool" where
  "hasNextKmer32 s k =
     sbind (int32_add (currItPos s) 1) (\<lambda>c. sbind (int32_add c k) (\<lambda>x. Inr (x \<le> int (L s))))"

text \<open>\<open>nextKmer\<close> (lines 121--128): the test, then \<open>currItPos += 1\<close>; the result is the
  offset of the returned pointer, \<open>None\<close> for the null pointer.\<close>

definition nextKmer32 :: "sequence \<Rightarrow> int \<Rightarrow> kmer_error + sequence \<times> int option" where
  "nextKmer32 s k =
     sbind (hasNextKmer32 s k) (\<lambda>b.
       if b then sbind (int32_add (currItPos s) 1) (\<lambda>c. Inr (s\<lparr>currItPos := c\<rparr>, Some c))
       else Inr (s, None))"

text \<open>The callers' loop.\<close>

partial_function (option) kmer_loop :: "sequence \<Rightarrow> int \<Rightarrow> (kmer_error + sequence) option" where
  "kmer_loop s k =
     (case hasNextKmer32 s k of
        Inl e \<Rightarrow> Some (Inl e)
      | Inr b \<Rightarrow>
          if b then (case nextKmer32 s k of Inl e \<Rightarrow> Some (Inl e) | Inr (s', _) \<Rightarrow> kmer_loop s' k)
          else Some (Inr s))"

subsection \<open>The \<open>int\<close> evaluation agrees with the unbounded cursor when nothing overflows\<close>

lemma int32_add_Inr: "- (2 ^ 31) \<le> a + b \<Longrightarrow> a + b < 2 ^ 31 \<Longrightarrow> int32_add a b = Inr (a + b)"
  by (simp add: int32_add_def)

lemma hasNextKmer32_eq:
  assumes "-1 \<le> currItPos s" "0 \<le> k" "currItPos s + 1 + k < 2 ^ 31"
  shows "hasNextKmer32 s k = Inr (hasNextKmer s k)"
    and "nextKmer32 s k = Inr (nextKmer s k)"
proof -
  have a: "int32_add (currItPos s) 1 = Inr (currItPos s + 1)" using assms by (intro int32_add_Inr) simp_all
  have b: "int32_add (currItPos s + 1) k = Inr (currItPos s + 1 + k)" using assms by (intro int32_add_Inr) simp_all
  show h: "hasNextKmer32 s k = Inr (hasNextKmer s k)"
    by (simp add: hasNextKmer32_def hasNextKmer_def a b)
  show "nextKmer32 s k = Inr (nextKmer s k)"
    by (simp add: nextKmer32_def nextKmer_def h a)
qed

subsection \<open>Properties\<close>

text \<open>C30 (termination). For a cursor at or after its reset position \<open>-1\<close>, a
  non-negative k-mer size and an object whose length fits in an \<open>int\<close> (with one to
  spare, for the last test \<open>(L - k + 1) + k\<close>), and when the first test does not
  overflow, the callers' loop stops normally: no sum overflows, everything but
  \<open>currItPos\<close> is unchanged and \<open>currItPos\<close> ends at \<open>L - k\<close>, the start of the last
  window, unless it was already further.\<close>

theorem kmer_loop_terminates:
  assumes "-1 \<le> currItPos s" and "0 \<le> k" and "currItPos s + 1 + k < 2 ^ 31" and "int (L s) < 2 ^ 31 - 1"
  shows "kmer_loop s k = Some (Inr (s\<lparr>currItPos := max (currItPos s) (int (L s) - k)\<rparr>))"
  using assms
proof (induction "nat (int (L s) - k - currItPos s)" arbitrary: s rule: less_induct)
  case less
  note eq = hasNextKmer32_eq [OF less.prems(1-3)]
  show ?case
  proof (cases "hasNextKmer s k")
    case True
    let ?s' = "s\<lparr>currItPos := currItPos s + 1\<rparr>"
    have n: "nextKmer s k = (?s', Some (currItPos s + 1))" using True by (simp add: nextKmer_def)
    have "nat (int (L ?s') - k - currItPos ?s') < nat (int (L s) - k - currItPos s)"
      using True by (simp add: hasNextKmer_def)
    moreover have "-1 \<le> currItPos ?s'" "currItPos ?s' + 1 + k < 2 ^ 31" "int (L ?s') < 2 ^ 31 - 1"
      using True less.prems by (simp_all add: hasNextKmer_def)
    ultimately have "kmer_loop ?s' k = Some (Inr (?s'\<lparr>currItPos := max (currItPos ?s') (int (L ?s') - k)\<rparr>))"
      using less.hyps less.prems(2) by blast
    moreover have "max (currItPos s + 1) (int (L s) - k) = max (currItPos s) (int (L s) - k)"
      using True by (simp add: hasNextKmer_def)
    ultimately show ?thesis using True by (subst kmer_loop.simps) (simp add: eq n)
  next
    case False
    then have "max (currItPos s) (int (L s) - k) = currItPos s" by (simp add: hasNextKmer_def)
    then show ?thesis using False by (subst kmer_loop.simps) (simp add: eq)
  qed
qed

text \<open>With \<open>k = INT_MIN\<close> the test \<open>(currItPos + 1) + k \<le> L\<close> holds for every cursor of
  a non-negative length, so the cursor climbs until \<open>currItPos + 1\<close> overflows.\<close>

lemma kmer_loop_int_min:
  assumes "-1 \<le> currItPos s" and "currItPos s < 2 ^ 31"
  shows "kmer_loop s (- (2 ^ 31)) = Some (Inl IntOverflow)"
  using assms
proof (induction "nat (2 ^ 31 - currItPos s)" arbitrary: s rule: less_induct)
  case less
  show ?case
  proof (cases "currItPos s + 1 < 2 ^ 31")
    case True
    let ?s' = "s\<lparr>currItPos := currItPos s + 1\<rparr>"
    have a: "int32_add (currItPos s) 1 = Inr (currItPos s + 1)" using True less.prems by (intro int32_add_Inr) simp_all
    have h: "hasNextKmer32 s (- 2147483648) = Inr True"
      using True less.prems by (simp add: hasNextKmer32_def int32_add_def)
    have n: "nextKmer32 s (- 2147483648) = Inr (?s', Some (currItPos s + 1))"
      by (simp add: nextKmer32_def h a)
    have "kmer_loop ?s' (- (2 ^ 31)) = Some (Inl IntOverflow)"
      using less.hyps True less.prems by simp
    then show ?thesis by (subst kmer_loop.simps) (simp add: h n)
  next
    case False
    then have "int32_add (currItPos s) 1 = Inl IntOverflow" by (simp add: int32_add_def)
    then show ?thesis by (subst kmer_loop.simps) (simp add: hasNextKmer32_def)
  qed
qed

subsection \<open>Witnesses\<close>

theorem kmer_loop_terminates_witness:
  "kmer_loop (projr (mapSequence (prot_seq 16) 1 ''q'' ''ACDEF'')) 3 =
   Some (Inr ((projr (mapSequence (prot_seq 16) 1 ''q'' ''ACDEF''))\<lparr>currItPos := 2\<rparr>))"
proof -
  let ?s = "projr (mapSequence (prot_seq 16) 1 ''q'' ''ACDEF'')"
  have c: "currItPos ?s = -1" and l: "L ?s = 5" by code_simp+
  show ?thesis
    using kmer_loop_terminates [of ?s 3] by (simp add: c l)
qed

end
