(* ===== verification/ScoreMatrix.thy ===== *)
theory ScoreMatrix
  imports Complex_Main Prelude
begin

text \<open>
  The substitution-matrix object (\<open>BaseMatrix\<close>) the alignment code consumes: the
  alphabet size, the score table \<open>subMatrix\<close> (a \<open>short**\<close> indexed by two codes)
  and the bit factor of the e-value formula. It is not part of these sources; the
  record follows the interface the spec describes (section 6) and the members
  \<open>Matcher.cpp\<close> reads (\<open>m->alphabetSize\<close>, \<open>m->subMatrix[x][a]\<close>,
  \<open>m->getBitFactor()\<close>).
\<close>

record base_matrix =
  alphabetSize :: nat
  subMatrix :: "int list list"
  bitFactor :: real

text \<open>\<open>m->subMatrix[x][a]\<close>: \<open>None\<close> outside the allocation.\<close>

definition score_at :: "base_matrix \<Rightarrow> int \<Rightarrow> int \<Rightarrow> int option" where
  "score_at m x a = (case tbl_get (subMatrix m) x of None \<Rightarrow> None | Some row \<Rightarrow> tbl_get row a)"

text \<open>A well-formed matrix: square over the alphabet, scores stored as \<open>short\<close>.\<close>

definition matrix_ok :: "base_matrix \<Rightarrow> bool" where
  "matrix_ok m \<longleftrightarrow> length (subMatrix m) = alphabetSize m \<and>
     (\<forall>row \<in> set (subMatrix m). length row = alphabetSize m \<and>
        (\<forall>v \<in> set row. -32768 \<le> v \<and> v \<le> 32767))"

text \<open>Fixture for the witnesses: a nucleotide matrix over \<open>acgtn\<close> (match 2,
  mismatch -3, \<open>n\<close> scores -1), bit factor 2.\<close>

definition nuc_matrix :: base_matrix where
  "nuc_matrix = \<lparr>alphabetSize = 5,
     subMatrix = [[2, -3, -3, -3, -1], [-3, 2, -3, -3, -1], [-3, -3, 2, -3, -1],
                  [-3, -3, -3, 2, -1], [-1, -1, -1, -1, -1]],
     bitFactor = 2\<rparr>"

lemma score_at_ok:
  "matrix_ok m \<Longrightarrow> 0 \<le> x \<Longrightarrow> x < int (alphabetSize m) \<Longrightarrow> 0 \<le> a \<Longrightarrow> a < int (alphabetSize m) \<Longrightarrow>
   score_at m x a = Some (subMatrix m ! nat x ! nat a)"
  by (auto simp: score_at_def tbl_get_def matrix_ok_def)

lemma score_at_range:
  "matrix_ok m \<Longrightarrow> score_at m x a = Some v \<Longrightarrow> -32768 \<le> v \<and> v \<le> 32767"
  by (auto simp: score_at_def matrix_ok_def split: option.splits dest!: tbl_get_in_set)

end
