(* ===== verification/QueryProfile.thy ===== *)
theory QueryProfile
  imports ScoreMatrix Sequence
begin

text \<open>
  The striped query profile of \<open>Matcher::calcQueryProfileWord\<close>
  (\<open>src/src/alignment/Matcher.cpp\<close>, lines 68--91). For every alphabet symbol
  \<open>a\<close> the profile holds \<open>segLen * 8\<close> 16-bit entries; entry \<open>i * 8 + k\<close> of the
  block of \<open>a\<close> is the score of \<open>a\<close> against query position \<open>i + k * segLen\<close>, or
  0 past the end of the query. The three nested loops are modelled as three
  structural recursions over their remaining iteration counts; each store goes to
  \<open>queryProfileWord[h]\<close> with \<open>h\<close> counting up from \<open>a * segLen * 8\<close>, and a store or
  read outside an allocation is an error value.
\<close>

subsection \<open>Definitions\<close>

datatype prof_error =
    ProfileWriteOutOfRange nat
  | QueryReadOutOfRange nat
  | ScoreReadOutOfRange int nat

definition segLen :: "nat \<Rightarrow> nat" where
  "segLen ql = (ql + 7) div 8"

text \<open>The value stored for symbol \<open>a\<close> and query position \<open>j\<close> (lines 81--85): the
  \<open>short\<close> score cast to \<open>unsigned short\<close>.\<close>

definition lane_value :: "base_matrix \<Rightarrow> int list \<Rightarrow> nat \<Rightarrow> nat \<Rightarrow> nat \<Rightarrow> prof_error + u16" where
  "lane_value m q ql a j =
     (if ql \<le> j then Inr 0
      else (case tbl_get q (int j) of
              None \<Rightarrow> Inl (QueryReadOutOfRange j)
            | Some c \<Rightarrow> (case score_at m c (int a) of
                          None \<Rightarrow> Inl (ScoreReadOutOfRange c a)
                        | Some sc \<Rightarrow> Inr (word_of_int sc))))"

text \<open>\<open>queryProfileWord[h] = v\<close>.\<close>

definition store16 :: "u16 list \<Rightarrow> nat \<Rightarrow> u16 \<Rightarrow> prof_error + u16 list" where
  "store16 P h v = (if h < length P then Inr (P[h := v]) else Inl (ProfileWriteOutOfRange h))"

text \<open>The innermost loop over the 8 lanes \<open>k\<close> (\<open>j\<close> steps by \<open>segLen\<close>, \<open>h\<close> by 1).\<close>

fun fill_lanes ::
  "base_matrix \<Rightarrow> int list \<Rightarrow> nat \<Rightarrow> nat \<Rightarrow> nat \<Rightarrow> nat \<Rightarrow> nat \<Rightarrow> nat \<Rightarrow> u16 list \<Rightarrow> prof_error + u16 list" where
  "fill_lanes m q ql a sl 0 j h P = Inr P"
| "fill_lanes m q ql a sl (Suc n) j h P =
     sbind (lane_value m q ql a j) (\<lambda>v.
     sbind (store16 P h v) (\<lambda>P'. fill_lanes m q ql a sl n (j + sl) (Suc h) P'))"

text \<open>The loop over the segments \<open>i < segLen\<close>.\<close>

fun fill_segs ::
  "base_matrix \<Rightarrow> int list \<Rightarrow> nat \<Rightarrow> nat \<Rightarrow> nat \<Rightarrow> nat \<Rightarrow> nat \<Rightarrow> nat \<Rightarrow> u16 list \<Rightarrow> prof_error + u16 list" where
  "fill_segs m q ql a sl 0 i h P = Inr P"
| "fill_segs m q ql a sl (Suc n) i h P =
     sbind (fill_lanes m q ql a sl 8 i h P) (\<lambda>P'. fill_segs m q ql a sl n (Suc i) (h + 8) P')"

text \<open>The outer loop over the alphabet; \<open>h = a * segLen * 8\<close> at the start of each block.\<close>

fun fill_alpha ::
  "base_matrix \<Rightarrow> int list \<Rightarrow> nat \<Rightarrow> nat \<Rightarrow> nat \<Rightarrow> nat \<Rightarrow> u16 list \<Rightarrow> prof_error + u16 list" where
  "fill_alpha m q ql sl 0 a P = Inr P"
| "fill_alpha m q ql sl (Suc n) a P =
     sbind (fill_segs m q ql a sl sl 0 (a * sl * 8) P) (\<lambda>P'. fill_alpha m q ql sl n (Suc a) P')"

definition calcQueryProfileWord :: "base_matrix \<Rightarrow> sequence \<Rightarrow> u16 list \<Rightarrow> prof_error + u16 list" where
  "calcQueryProfileWord m s P =
     fill_alpha m (int_sequence s) (L s) (segLen (L s)) (alphabetSize m) 0 P"

subsection \<open>Reference layout\<close>

text \<open>The profile as the spec describes it (section 3): the entry of symbol \<open>a\<close>,
  segment \<open>i\<close>, lane \<open>k\<close>.\<close>

definition profile_entry :: "base_matrix \<Rightarrow> sequence \<Rightarrow> nat \<Rightarrow> nat \<Rightarrow> nat \<Rightarrow> u16" where
  "profile_entry m s a i k =
     (let j = i + k * segLen (L s) in
      if L s \<le> j then 0 else word_of_int (subMatrix m ! nat (int_sequence s ! j) ! a))"

definition profile_spec :: "base_matrix \<Rightarrow> sequence \<Rightarrow> u16 list \<Rightarrow> u16 list" where
  "profile_spec m s P =
     (let w = segLen (L s) * 8 in
      map (\<lambda>t. if t < alphabetSize m * w then profile_entry m s (t div w) ((t mod w) div 8) (t mod 8)
               else P ! t) [0..<length P])"

text \<open>The sequence of values the loops store, in store order.\<close>

definition lane_list :: "base_matrix \<Rightarrow> int list \<Rightarrow> nat \<Rightarrow> nat \<Rightarrow> nat \<Rightarrow> nat \<Rightarrow> (prof_error + u16) list" where
  "lane_list m q ql sl a i = map (\<lambda>k. lane_value m q ql a (i + k * sl)) [0..<8]"

definition profile_lanes :: "base_matrix \<Rightarrow> int list \<Rightarrow> nat \<Rightarrow> nat \<Rightarrow> nat \<Rightarrow> (prof_error + u16) list" where
  "profile_lanes m q ql sl asz = concat (map (\<lambda>a. concat (map (lane_list m q ql sl a) [0..<sl])) [0..<asz])"

fun store_all :: "u16 list \<Rightarrow> nat \<Rightarrow> (prof_error + u16) list \<Rightarrow> prof_error + u16 list" where
  "store_all P h [] = Inr P"
| "store_all P h (x # xs) = sbind x (\<lambda>v. sbind (store16 P h v) (\<lambda>P'. store_all P' (Suc h) xs))"

subsection \<open>The loops store the reference sequence\<close>

lemma store_all_append:
  "store_all P h (xs @ ys) = sbind (store_all P h xs) (\<lambda>P'. store_all P' (h + length xs) ys)"
  by (induction xs arbitrary: P h) (simp_all add: sbind_assoc)

lemma fill_lanes_eq:
  "fill_lanes m q ql a sl n j h P = store_all P h (map (\<lambda>k. lane_value m q ql a (j + k * sl)) [0..<n])"
proof (induction n arbitrary: j h P)
  case 0
  then show ?case by simp
next
  case (Suc n)
  have "map (\<lambda>k. lane_value m q ql a (j + k * sl)) [0..<Suc n] =
        lane_value m q ql a j # map (\<lambda>k. lane_value m q ql a (j + sl + k * sl)) [0..<n]"
    by (simp only: upt_conv_Cons map_Suc_upt [symmetric]) (simp add: ac_simps)
  moreover have "fill_lanes m q ql a sl n (j + sl) (Suc h) =
      (\<lambda>P'. store_all P' (Suc h) (map (\<lambda>k. lane_value m q ql a (j + sl + k * sl)) [0..<n]))"
    by (simp add: fun_eq_iff Suc.IH)
  ultimately show ?case by (simp del: upt_Suc)
qed

lemma length_lane_list [simp]: "length (lane_list m q ql sl a i) = 8"
  by (simp add: lane_list_def)

lemma fill_segs_eq:
  "fill_segs m q ql a sl n i h P = store_all P h (concat (map (lane_list m q ql sl a) [i..<i + n]))"
proof (induction n arbitrary: i h P)
  case 0
  then show ?case by simp
next
  case (Suc n)
  have "[i..<i + Suc n] = i # [Suc i..<Suc i + n]" by (simp add: upt_rec)
  moreover have "fill_segs m q ql a sl n (Suc i) (h + 8) =
      (\<lambda>P'. store_all P' (h + 8) (concat (map (lane_list m q ql sl a) [Suc i..<Suc i + n])))"
    by (simp add: fun_eq_iff Suc.IH)
  moreover have "fill_lanes m q ql a sl 8 i h P = store_all P h (lane_list m q ql sl a i)"
    by (simp only: fill_lanes_eq lane_list_def)
  ultimately show ?case
    by (simp add: store_all_append del: upt_Suc)
qed

lemma length_lane_block:
  "length (concat (map (lane_list m q ql sl a) [0..<sl])) = sl * 8"
  by (simp add: length_concat lane_list_def comp_def sum_list_triv)

lemma fill_alpha_eq:
  "fill_alpha m q ql sl n a P =
     store_all P (a * sl * 8) (concat (map (\<lambda>a'. concat (map (lane_list m q ql sl a') [0..<sl])) [a..<a + n]))"
proof (induction n arbitrary: a P)
  case 0
  then show ?case by simp
next
  case (Suc n)
  have "[a..<a + Suc n] = a # [Suc a..<Suc a + n]" by (simp add: upt_rec)
  moreover have "a * sl * 8 + sl * 8 = Suc a * sl * 8" by simp
  moreover have "fill_alpha m q ql sl n (Suc a) =
      (\<lambda>P'. store_all P' (Suc a * sl * 8)
         (concat (map (\<lambda>a'. concat (map (lane_list m q ql sl a') [0..<sl])) [Suc a..<Suc a + n])))"
    by (simp add: fun_eq_iff Suc.IH)
  ultimately show ?case
    by (simp add: fill_segs_eq store_all_append length_lane_block ac_simps del: upt_Suc)
qed

lemma calcQueryProfileWord_eq:
  "calcQueryProfileWord m s P =
     store_all P 0 (profile_lanes m (int_sequence s) (L s) (segLen (L s)) (alphabetSize m))"
  by (simp add: calcQueryProfileWord_def fill_alpha_eq profile_lanes_def)

subsection \<open>Stores and reads\<close>

lemma store_all_Inr:
  "\<forall>x\<in>set xs. \<not> isl x \<Longrightarrow> h + length xs \<le> length P \<Longrightarrow>
   store_all P h xs = Inr (list_write P h (map projr xs))"
proof (induction xs arbitrary: P h)
  case (Cons x xs)
  then obtain v where x: "x = Inr v" by (cases x) auto
  with Cons.prems have "store16 P h v = Inr (P[h := v])" by (simp add: store16_def)
  with Cons x show ?case by (simp add: list_write_Cons)
qed simp

lemma store_all_overflow:
  "\<forall>x\<in>set xs. \<not> isl x \<Longrightarrow> h \<le> length P \<Longrightarrow> length P < h + length xs \<Longrightarrow>
   store_all P h xs = Inl (ProfileWriteOutOfRange (length P))"
proof (induction xs arbitrary: P h)
  case (Cons x xs)
  then obtain v where x: "x = Inr v" by (cases x) auto
  show ?case
  proof (cases "h < length P")
    case True
    then have "store16 P h v = Inr (P[h := v])" by (simp add: store16_def)
    with Cons True x show ?thesis by simp
  next
    case False
    with Cons.prems x show ?thesis by (simp add: store16_def)
  qed
qed simp

lemma lane_value_ok:
  assumes "matrix_ok m" and "codes_valid (int (alphabetSize m)) s" and "L s \<le> length (int_sequence s)"
    and "a < alphabetSize m"
  shows "lane_value m (int_sequence s) (L s) a j =
    Inr (if L s \<le> j then 0 else word_of_int (subMatrix m ! nat (int_sequence s ! j) ! a))"
proof (cases "L s \<le> j")
  case False
  with assms(2) have "0 \<le> int_sequence s ! j \<and> int_sequence s ! j < int (alphabetSize m)"
    by (simp add: codes_valid_def)
  with assms(1,4) have "score_at m (int_sequence s ! j) (int a) = Some (subMatrix m ! nat (int_sequence s ! j) ! a)"
    by (simp add: score_at_ok)
  with False assms(3) show ?thesis by (simp add: lane_value_def tbl_get_def)
qed (simp add: lane_value_def)

lemma length_profile_lanes [simp]:
  "length (profile_lanes m q ql sl asz) = asz * (sl * 8)"
  by (simp add: profile_lanes_def length_concat comp_def length_lane_block sum_list_triv)

lemma nth_profile_lanes:
  "a < asz \<Longrightarrow> i < sl \<Longrightarrow> k < 8 \<Longrightarrow>
   profile_lanes m q ql sl asz ! (a * (sl * 8) + (i * 8 + k)) = lane_value m q ql a (i + k * sl)"
  unfolding profile_lanes_def
  by (simp add: nth_concat_uniform length_lane_block lane_list_def)

lemma set_profile_lanes:
  "x \<in> set (profile_lanes m q ql sl asz) \<Longrightarrow> \<exists>a < asz. \<exists>j. x = lane_value m q ql a j"
  by (auto simp: profile_lanes_def lane_list_def)

lemma profile_lanes_ok:
  assumes "matrix_ok m" and "codes_valid (int (alphabetSize m)) s" and "L s \<le> length (int_sequence s)"
  shows "\<forall>x\<in>set (profile_lanes m (int_sequence s) (L s) sl (alphabetSize m)). \<not> isl x"
  using lane_value_ok [OF assms] by (fastforce dest: set_profile_lanes)

lemma profile_index_split:
  fixes t sl asz :: nat
  shows "t < asz * (sl * 8) \<Longrightarrow>
   t = t div (sl * 8) * (sl * 8) + ((t mod (sl * 8)) div 8 * 8 + t mod 8) \<and>
   t div (sl * 8) < asz \<and> (t mod (sl * 8)) div 8 < sl \<and> t mod 8 < 8 \<and> t mod (sl * 8) mod 8 = t mod 8"
proof -
  assume t: "t < asz * (sl * 8)"
  then have "0 < sl" by (cases sl) auto
  have "t mod (sl * 8) mod 8 = t mod 8" by (simp add: mod_mod_cancel)
  moreover have "t div (sl * 8) < asz" using t by (rule less_mult_imp_div_less)
  moreover have "(t mod (sl * 8)) div 8 < sl" using \<open>0 < sl\<close>
    by (simp add: div_less_iff_less_mult)
  ultimately show ?thesis by (metis div_mult_mod_eq mod_less_divisor zero_less_numeral)
qed

lemma calcQueryProfileWord_spec:
  assumes "matrix_ok m" and "codes_valid (int (alphabetSize m)) s" and "L s \<le> length (int_sequence s)"
    and "alphabetSize m * segLen (L s) * 8 \<le> length P"
  shows "calcQueryProfileWord m s P = Inr (profile_spec m s P)"
proof -
  let ?sl = "segLen (L s)"
  let ?xs = "profile_lanes m (int_sequence s) (L s) ?sl (alphabetSize m)"
  have fit: "0 + length (map projr ?xs) \<le> length P" using assms(4) by (simp add: ac_simps)
  have "calcQueryProfileWord m s P = Inr (list_write P 0 (map projr ?xs))"
    using store_all_Inr [OF profile_lanes_ok [OF assms(1-3)]] fit
    by (simp add: calcQueryProfileWord_eq)
  moreover have "list_write P 0 (map projr ?xs) = profile_spec m s P"
  proof (rule nth_equalityI)
    show "length (list_write P 0 (map projr ?xs)) = length (profile_spec m s P)"
      using fit by (simp add: profile_spec_def Let_def)
  next
    fix t assume "t < length (list_write P 0 (map projr ?xs))"
    then have t: "t < length P" using fit by simp
    show "list_write P 0 (map projr ?xs) ! t = profile_spec m s P ! t"
    proof (cases "t < alphabetSize m * (?sl * 8)")
      case True
      let ?a = "t div (?sl * 8)" and ?i = "(t mod (?sl * 8)) div 8" and ?k = "t mod 8"
      note sp = profile_index_split [OF True]
      have "?xs ! t = lane_value m (int_sequence s) (L s) ?a (?i + ?k * ?sl)"
        using sp nth_profile_lanes [of ?a "alphabetSize m" ?i ?sl ?k] by metis
      also have "\<dots> = Inr (profile_entry m s ?a ?i ?k)"
        using lane_value_ok [OF assms(1-3)] sp by (simp add: profile_entry_def)
      finally show ?thesis
        using True t fit by (simp add: nth_list_write profile_spec_def Let_def)
    next
      case False
      then show ?thesis using t fit by (simp add: nth_list_write profile_spec_def Let_def ac_simps)
    qed
  qed
  ultimately show ?thesis by simp
qed

lemma calcQueryProfileWord_overflow_aux:
  assumes "matrix_ok m" and "codes_valid (int (alphabetSize m)) s" and "L s \<le> length (int_sequence s)"
    and "length P < alphabetSize m * segLen (L s) * 8"
  shows "calcQueryProfileWord m s P = Inl (ProfileWriteOutOfRange (length P))"
  using store_all_overflow [OF profile_lanes_ok [OF assms(1-3)], of 0 P] assms(4)
  by (simp add: calcQueryProfileWord_eq ac_simps)

lemma segLen_fits: "ql < mx \<or> ql = 0 \<Longrightarrow> 8 dvd mx \<Longrightarrow> segLen ql * 8 \<le> mx"
  by (auto simp: segLen_def)

subsection \<open>Properties\<close>

text \<open>C14 (equivalence). The triple loop of \<open>calcQueryProfileWord\<close> computes the striped
  layout of the spec: with a well-formed matrix, a query whose codes index the alphabet
  and a buffer of at least \<open>alphabetSize * segLen * 8\<close> entries, entry
  \<open>a * segLen * 8 + i * 8 + k\<close> is the score of symbol \<open>a\<close> against query position
  \<open>i + k * segLen\<close> (0 past the end), and the rest of the buffer is untouched.\<close>

theorem calcQueryProfileWord_layout:
  assumes "matrix_ok m" and "codes_valid (int (alphabetSize m)) s" and "L s \<le> length (int_sequence s)"
    and "alphabetSize m * segLen (L s) * 8 \<le> length P"
  shows "calcQueryProfileWord m s P = Inr (profile_spec m s P)"
  by (rule calcQueryProfileWord_spec [OF assms])

text \<open>C15 (safety). The buffer the \<open>Matcher\<close> constructor allocates,
  \<open>alphabetSize * maxSeqLen\<close> entries, is large enough for every well-formed query of
  capacity at most \<open>maxSeqLen\<close> when \<open>maxSeqLen\<close> is a multiple of 8.\<close>

theorem calcQueryProfileWord_matcher_buffer:
  assumes "matrix_ok m" and "codes_valid (int (alphabetSize m)) s" and "seq_wf s"
    and "maxLen s \<le> mx" and "8 dvd mx"
  shows "calcQueryProfileWord m s (replicate (alphabetSize m * mx) 0) =
           Inr (profile_spec m s (replicate (alphabetSize m * mx) 0))"
proof (rule calcQueryProfileWord_spec [OF assms(1,2)])
  show "L s \<le> length (int_sequence s)" using assms(3) by (auto simp: seq_wf_def)
  have "L s < mx \<or> L s = 0" using assms(3,4) by (auto simp: seq_wf_def)
  then have "segLen (L s) * 8 \<le> mx" using assms(5) by (rule segLen_fits)
  then show "alphabetSize m * segLen (L s) * 8 \<le> length (replicate (alphabetSize m * mx) (0 :: u16))"
    by (simp add: mult.assoc)
qed

text \<open>C16 (error). The fill writes \<open>alphabetSize * segLen * 8\<close> entries whatever the
  buffer size: when the query length rounded up to a multiple of 8 exceeds the buffer,
  the first store past the allocation is reached (a heap overflow in the source, as
  with \<open>maxSeqLen = 10\<close> and a query of 9 residues).\<close>

theorem calcQueryProfileWord_overflow:
  assumes "matrix_ok m" and "codes_valid (int (alphabetSize m)) s" and "L s \<le> length (int_sequence s)"
    and "length P < alphabetSize m * segLen (L s) * 8"
  shows "calcQueryProfileWord m s P = Inl (ProfileWriteOutOfRange (length P))"
  by (rule calcQueryProfileWord_overflow_aux [OF assms])

text \<open>The striping puts every query position in exactly one slot of
  each symbol's block: position \<open>j < L\<close> is lane \<open>j div segLen\<close> of segment
  \<open>j mod segLen\<close>, and no other (segment, lane) pair addresses it.\<close>

lemma stripe_slot_unique:
  assumes "j < ql"
  shows "j mod segLen ql < segLen ql \<and> j div segLen ql < 8 \<and>
    (\<forall>i < segLen ql. \<forall>k < 8. i + k * segLen ql = j \<longleftrightarrow> i = j mod segLen ql \<and> k = j div segLen ql)"
proof -
  have pos: "0 < segLen ql" using assms by (simp add: segLen_def)
  have "j < segLen ql * 8" using assms by (simp add: segLen_def)
  then have "j div segLen ql < 8" by (simp add: div_less_iff_less_mult pos)
  moreover have "i + k * segLen ql = j \<longleftrightarrow> i = j mod segLen ql \<and> k = j div segLen ql"
    if "i < segLen ql" for i k
    using that pos by (auto simp: div_add1_eq)
  ultimately show ?thesis using pos by simp
qed

subsection \<open>Witnesses\<close>

abbreviation prof_query :: "nat \<Rightarrow> sequence" where
  "prof_query mx \<equiv> projr (mapSequence (nuc_seq mx) 1 ''q'' ''acgtacgta'')"

theorem calcQueryProfileWord_layout_witness:
  "L (prof_query 16) = 9 \<and>
   calcQueryProfileWord nuc_matrix (prof_query 16) (replicate 80 0) =
     Inr (profile_spec nuc_matrix (prof_query 16) (replicate 80 0))"
proof -
  have h1: "matrix_ok nuc_matrix" by code_simp
  have h2: "codes_valid (int (alphabetSize nuc_matrix)) (prof_query 16)" by code_simp
  have h3: "L (prof_query 16) \<le> length (int_sequence (prof_query 16))" by code_simp
  have h4: "alphabetSize nuc_matrix * segLen (L (prof_query 16)) * 8 \<le> length (replicate 80 (0 :: u16))"
    by code_simp
  have "L (prof_query 16) = 9" by code_simp
  then show ?thesis using calcQueryProfileWord_layout [OF h1 h2 h3 h4] by simp
qed

theorem calcQueryProfileWord_matcher_buffer_witness:
  "calcQueryProfileWord nuc_matrix (prof_query 16) (replicate (5 * 16) 0) =
     Inr (profile_spec nuc_matrix (prof_query 16) (replicate (5 * 16) 0))"
proof -
  have h1: "matrix_ok nuc_matrix" by code_simp
  have h2: "codes_valid (int (alphabetSize nuc_matrix)) (prof_query 16)" by code_simp
  have h3: "seq_wf (prof_query 16)" by code_simp
  have h4: "maxLen (prof_query 16) \<le> 16" by code_simp
  have h5: "8 dvd (16::nat)" by simp
  have "alphabetSize nuc_matrix = 5" by (simp add: nuc_matrix_def)
  then show ?thesis using calcQueryProfileWord_matcher_buffer [OF h1 h2 h3 h4 h5] by simp
qed

theorem calcQueryProfileWord_overflow_witness:
  "seq_wf (prof_query 10) \<and>
   calcQueryProfileWord nuc_matrix (prof_query 10) (replicate (5 * 10) 0) = Inl (ProfileWriteOutOfRange 50)"
proof -
  have h1: "matrix_ok nuc_matrix" by code_simp
  have h2: "codes_valid (int (alphabetSize nuc_matrix)) (prof_query 10)" by code_simp
  have h3: "L (prof_query 10) \<le> length (int_sequence (prof_query 10))" by code_simp
  have h4: "length (replicate (5 * 10) (0 :: u16)) < alphabetSize nuc_matrix * segLen (L (prof_query 10)) * 8"
    by code_simp
  have "seq_wf (prof_query 10)" by code_simp
  then show ?thesis using calcQueryProfileWord_overflow [OF h1 h2 h3 h4] by simp
qed

end
