(* ===== verification/SmithWaterman.thy ===== *)
theory SmithWaterman
  imports Prelude
begin

text \<open>
  The forward dynamic-programming pass \<open>smith_waterman_sse2_word\<close> that
  \<open>Matcher::getSWResult\<close> calls (\<open>Matcher.cpp\<close>, lines 39--44). Its source is not
  part of these sources; it is modelled from the spec (section 4.3): the affine-gap
  local-alignment recurrence over the three matrices H, E, F, computed column by
  column (one column per target position, query positions swept in order), with
  16-bit saturating lane arithmetic, and the best score with the first cell in scan
  order that reaches it. Query and target positions are 1-based DP indices, so the
  reported end positions count the residues up to and including the aligned end.
\<close>

subsection \<open>Arithmetic of a lane\<close>

text \<open>\<open>sat\<close> selects 16-bit saturating arithmetic (the kernel) or unbounded integers
  (the reference).\<close>

definition add_op :: "bool \<Rightarrow> int \<Rightarrow> int \<Rightarrow> int" where
  "add_op sat a b = (if sat then sat16 (a + b) else a + b)"

definition sub_op :: "bool \<Rightarrow> int \<Rightarrow> int \<Rightarrow> int" where
  "sub_op sat a b = (if sat then sat16 (a - b) else a - b)"

type_synonym cell = "int \<times> int \<times> int"

subsection \<open>Reference recurrence (spec 4.3)\<close>

fun hef :: "(nat \<Rightarrow> nat \<Rightarrow> int) \<Rightarrow> int \<Rightarrow> int \<Rightarrow> nat \<Rightarrow> nat \<Rightarrow> cell" where
  "hef sc go ge 0 j = (0, 0, 0)"
| "hef sc go ge (Suc i) 0 = (0, 0, 0)"
| "hef sc go ge (Suc i) (Suc j) =
     (let (hdg, _, _) = hef sc go ge i j;
          (hl, el, _) = hef sc go ge (Suc i) j;
          (hu, _, fu) = hef sc go ge i (Suc j);
          e = max (hl - go) (el - ge);
          f = max (hu - go) (fu - ge)
      in (max (max (hdg + sc (Suc i) (Suc j)) e) (max f 0), e, f))"

subsection \<open>Column sweep\<close>

text \<open>One target column: \<open>ss\<close> are the scores of the query positions against the
  target residue, \<open>prev\<close> the previous column; the carries are H of the diagonal
  cell, and H and F of the cell above.\<close>

primrec sweep :: "bool \<Rightarrow> int \<Rightarrow> int \<Rightarrow> int list \<Rightarrow> cell list \<Rightarrow> int \<Rightarrow> int \<Rightarrow> int \<Rightarrow> cell list" where
  "sweep sat go ge [] prev hdg hu fu = []"
| "sweep sat go ge (s # ss) prev hdg hu fu =
     (case prev of
        [] \<Rightarrow> []
      | (hl, el, fl) # prev' \<Rightarrow>
          (let e = max (sub_op sat hl go) (sub_op sat el ge);
               f = max (sub_op sat hu go) (sub_op sat fu ge);
               h = max (max (add_op sat hdg s) e) (max f 0)
           in (h, e, f) # sweep sat go ge ss prev' hl h f))"

definition col_scores :: "(nat \<Rightarrow> nat \<Rightarrow> int) \<Rightarrow> nat \<Rightarrow> nat \<Rightarrow> int list" where
  "col_scores sc m j = map (\<lambda>i. sc i j) [1..<Suc m]"

text \<open>Scan of a finished column for a strictly better score: the first cell in scan
  order that reaches the maximum is kept.\<close>

primrec scan_col :: "nat \<Rightarrow> nat \<Rightarrow> cell list \<Rightarrow> int \<times> nat \<times> nat \<Rightarrow> int \<times> nat \<times> nat" where
  "scan_col j i [] acc = acc"
| "scan_col j i (c # cs) acc =
     scan_col j (Suc i) cs (if fst acc < fst c then (fst c, i, j) else acc)"

primrec sw_cols ::
  "bool \<Rightarrow> int \<Rightarrow> int \<Rightarrow> (nat \<Rightarrow> nat \<Rightarrow> int) \<Rightarrow> nat \<Rightarrow> nat \<Rightarrow> nat \<Rightarrow> cell list \<Rightarrow> int \<times> nat \<times> nat
     \<Rightarrow> cell list \<times> (int \<times> nat \<times> nat)" where
  "sw_cols sat go ge sc m j 0 col best = (col, best)"
| "sw_cols sat go ge sc m j (Suc n) col best =
     (let col' = sweep sat go ge (col_scores sc m j) col 0 0 0
      in sw_cols sat go ge sc m (Suc j) n col' (scan_col j 1 col' best))"

definition sw_run :: "bool \<Rightarrow> int \<Rightarrow> int \<Rightarrow> (nat \<Rightarrow> nat \<Rightarrow> int) \<Rightarrow> nat \<Rightarrow> nat \<Rightarrow> int \<times> nat \<times> nat" where
  "sw_run sat go ge sc m n = snd (sw_cols sat go ge sc m 1 n (replicate m (0, 0, 0)) (0, 0, 0))"


subsection \<open>Abstract specification of the forward pass\<close>

text \<open>The kernel's scan order: target positions outer, query positions inner.\<close>

definition scan_order :: "nat \<Rightarrow> nat \<Rightarrow> (nat \<times> nat) list" where
  "scan_order m n = concat (map (\<lambda>j. map (\<lambda>i. (i, j)) [1..<Suc m]) [1..<Suc n])"

text \<open>The best local score (0 for the empty alignment) and the first cell in scan
  order that attains it, \<open>(0, 0)\<close> when no cell is positive.\<close>

definition sw_spec :: "(nat \<Rightarrow> nat \<Rightarrow> int) \<Rightarrow> int \<Rightarrow> int \<Rightarrow> nat \<Rightarrow> nat \<Rightarrow> int \<times> nat \<times> nat" where
  "sw_spec sc go ge m n =
     (let hs = map (\<lambda>(i, j). fst (hef sc go ge i j)) (scan_order m n);
          r = fold max hs 0
      in if 0 < r then (r, hd (filter (\<lambda>(i, j). fst (hef sc go ge i j) = r) (scan_order m n))) else (0, 0, 0))"

text \<open>One step of the scan over (cell, H) pairs.\<close>

definition scan_step :: "(nat \<times> nat) \<times> int \<Rightarrow> int \<times> nat \<times> nat \<Rightarrow> int \<times> nat \<times> nat" where
  "scan_step x acc = (if fst acc < snd x then (snd x, fst x) else acc)"

subsection \<open>Saturated and unbounded cells\<close>

text \<open>A saturated cell agrees with an unbounded one when H is equal and E, F are the
  unbounded values clamped from below at the 16-bit minimum.\<close>

definition lowclamp :: "int \<Rightarrow> int" where
  "lowclamp x = max (-32768) x"

definition sat_rel :: "cell \<Rightarrow> cell \<Rightarrow> bool" where
  "sat_rel cs ci \<longleftrightarrow> fst cs = fst ci \<and> fst (snd cs) = lowclamp (fst (snd ci)) \<and>
     snd (snd cs) = lowclamp (snd (snd ci))"

definition cell_bnd :: "cell \<Rightarrow> bool" where
  "cell_bnd c \<longleftrightarrow> 0 \<le> fst c \<and> fst c \<le> 32767 \<and> fst (snd c) \<le> 32767 \<and> snd (snd c) \<le> 32767"

definition h_bnd :: "cell \<Rightarrow> bool" where
  "h_bnd c \<longleftrightarrow> 0 \<le> fst c \<and> fst c \<le> 32767"

definition word_params :: "int \<Rightarrow> int \<Rightarrow> bool" where
  "word_params go ge \<longleftrightarrow> 0 \<le> go \<and> go \<le> 32767 \<and> 0 \<le> ge \<and> ge \<le> 32767"

definition scores16 :: "(nat \<Rightarrow> nat \<Rightarrow> int) \<Rightarrow> bool" where
  "scores16 sc \<longleftrightarrow> (\<forall>i j. -32768 \<le> sc i j \<and> sc i j \<le> 32767)"

text \<open>The reference column \<open>j\<close>: cells \<open>1..m\<close> of the recurrence.\<close>

definition ref_col :: "(nat \<Rightarrow> nat \<Rightarrow> int) \<Rightarrow> int \<Rightarrow> int \<Rightarrow> nat \<Rightarrow> nat \<Rightarrow> cell list" where
  "ref_col sc go ge m j = map (\<lambda>i. hef sc go ge i j) [1..<Suc m]"

text \<open>Fixture for the witnesses: query codes \<open>[1,2,3,4,1]\<close> against target codes
  \<open>[1,2,3]\<close>, match 5, mismatch -4.\<close>

definition ex_scores :: "nat \<Rightarrow> nat \<Rightarrow> int" where
  "ex_scores i j = (if [1, 2, 3, 4, 1 :: int] ! (i - 1) = [1, 2, 3 :: int] ! (j - 1) then 5 else -4)"

subsection \<open>The sweep computes the recurrence\<close>

lemma hef_Suc_Suc:
  "hef sc go ge (Suc i) (Suc j) =
     (let e = max (fst (hef sc go ge (Suc i) j) - go) (fst (snd (hef sc go ge (Suc i) j)) - ge);
          f = max (fst (hef sc go ge i (Suc j)) - go) (snd (snd (hef sc go ge i (Suc j))) - ge)
      in (max (max (fst (hef sc go ge i j) + sc (Suc i) (Suc j)) e) (max f 0), e, f))"
  by (simp add: Let_def split: prod.split)

declare hef.simps(3) [simp del]

lemma sweep_ref:
  assumes "k \<le> m"
  shows "sweep False go ge (map (\<lambda>i. sc i (Suc j)) [Suc k..<Suc m]) (map (\<lambda>i. hef sc go ge i j) [Suc k..<Suc m])
           (fst (hef sc go ge k j)) (fst (hef sc go ge k (Suc j))) (snd (snd (hef sc go ge k (Suc j))))
         = map (\<lambda>i. hef sc go ge i (Suc j)) [Suc k..<Suc m]"
  using assms
proof (induction "m - k" arbitrary: k)
  case 0
  then show ?case by simp
next
  case (Suc d)
  then have k: "k < m" by simp
  then have u: "[Suc k..<Suc m] = Suc k # [Suc (Suc k)..<Suc m]" by (simp add: upt_rec)
  have ih: "sweep False go ge (map (\<lambda>i. sc i (Suc j)) [Suc (Suc k)..<Suc m])
              (map (\<lambda>i. hef sc go ge i j) [Suc (Suc k)..<Suc m])
              (fst (hef sc go ge (Suc k) j)) (fst (hef sc go ge (Suc k) (Suc j)))
              (snd (snd (hef sc go ge (Suc k) (Suc j))))
            = map (\<lambda>i. hef sc go ge i (Suc j)) [Suc (Suc k)..<Suc m]"
    using Suc.hyps(1) [of "Suc k"] Suc.hyps(2) k by simp
  obtain hl el fl where l: "hef sc go ge (Suc k) j = (hl, el, fl)" by (metis prod.exhaust)
  obtain hg eg fg where g: "hef sc go ge k j = (hg, eg, fg)" by (metis prod.exhaust)
  obtain hu eu fu where up: "hef sc go ge k (Suc j) = (hu, eu, fu)" by (metis prod.exhaust)
  let ?e = "max (hl - go) (el - ge)" and ?f = "max (hu - go) (fu - ge)"
  have c: "hef sc go ge (Suc k) (Suc j) = (max (max (hg + sc (Suc k) (Suc j)) ?e) (max ?f 0), ?e, ?f)"
    by (simp add: hef_Suc_Suc l g up Let_def)
  have "sweep False go ge (map (\<lambda>i. sc i (Suc j)) [Suc k..<Suc m]) (map (\<lambda>i. hef sc go ge i j) [Suc k..<Suc m])
          hg hu fu
        = hef sc go ge (Suc k) (Suc j) #
          sweep False go ge (map (\<lambda>i. sc i (Suc j)) [Suc (Suc k)..<Suc m])
            (map (\<lambda>i. hef sc go ge i j) [Suc (Suc k)..<Suc m]) hl (fst (hef sc go ge (Suc k) (Suc j)))
            (snd (snd (hef sc go ge (Suc k) (Suc j))))"
    by (simp only: u list.map sweep.simps l c Let_def add_op_def sub_op_def if_False fst_conv snd_conv
        list.case prod.case)
  then show ?case using ih by (simp only: g up l fst_conv snd_conv u list.map)
qed

lemma sweep_ref_col:
  "sweep False go ge (col_scores sc m (Suc j)) (ref_col sc go ge m j) 0 0 0 = ref_col sc go ge m (Suc j)"
  using sweep_ref [where k = 0 and m = m and sc = sc and j = j and go = go and ge = ge]
  by (simp add: col_scores_def ref_col_def)

lemma hef_0_right [simp]: "hef sc go ge i 0 = (0, 0, 0)"
  by (cases i) simp_all

lemma ref_col_0: "ref_col sc go ge m 0 = replicate m (0, 0, 0)"
  by (simp add: ref_col_def map_replicate_const)

subsection \<open>The scan finds the first maximal cell\<close>

lemma scan_col_fold:
  "scan_col j i col acc = fold scan_step (zip (map (\<lambda>k. (k, j)) [i..<i + length col]) (map fst col)) acc"
proof (induction col arbitrary: i acc)
  case (Cons c col)
  have "[i..<i + length (c # col)] = i # [Suc i..<Suc i + length col]" by (simp add: upt_rec)
  then show ?case by (simp add: Cons.IH scan_step_def del: upt_Suc)
qed simp

lemma fold_max_ge: "(a :: int) \<le> fold max hs a"
proof (induction hs arbitrary: a)
  case (Cons x hs)
  have "a \<le> max x a" by simp
  also have "\<dots> \<le> fold max hs (max x a)" by (rule Cons.IH)
  finally show ?case by simp
qed simp

lemma fold_scan_step:
  "fold scan_step xs (b, p) =
     (let r = fold max (map snd xs) b
      in if b < r then (r, fst (hd (filter (\<lambda>x. snd x = r) xs))) else (b, p))"
proof (induction xs arbitrary: b p)
  case Nil
  then show ?case by simp
next
  case (Cons x xs)
  obtain c h where x: "x = (c, h)" by (cases x)
  let ?r = "fold max (map snd xs) h"
  show ?case
  proof (cases "b < h")
    case True
    then have st: "scan_step (c, h) (b, p) = (h, c)" by (simp add: scan_step_def)
    have r: "fold max (map snd (x # xs)) b = ?r" using True by (simp add: x max_def)
    have hr: "h \<le> ?r" by (rule fold_max_ge)
    show ?thesis
    proof (cases "h < ?r")
      case True
      with Cons.IH [of h c] \<open>b < h\<close> show ?thesis by (simp add: st r Let_def x)
    next
      case False
      with hr have "h = ?r" by simp
      with Cons.IH [of h c] \<open>b < h\<close> show ?thesis by (simp add: st r Let_def x)
    qed
  next
    case False
    then have st: "scan_step (c, h) (b, p) = (b, p)" by (simp add: scan_step_def)
    have r: "fold max (map snd (x # xs)) b = fold max (map snd xs) b" using False by (simp add: x max_def)
    have "b \<le> fold max (map snd xs) b" by (rule fold_max_ge)
    with False Cons.IH [of b p] show ?thesis by (auto simp: st r Let_def x)
  qed
qed

lemma fold_max_in: "fold max hs (a :: int) \<in> insert a (set hs)"
proof (induction hs arbitrary: a)
  case (Cons x hs)
  from Cons.IH [of "max x a"] show ?case by (auto simp: max_def split: if_splits)
qed simp

lemma scan_col_ref:
  "scan_col j (Suc 0) (ref_col sc go ge m j) acc =
     fold scan_step (map (\<lambda>i. ((i, j), fst (hef sc go ge i j))) [1..<Suc m]) acc"
  by (simp add: scan_col_fold ref_col_def zip_map_map zip_same_conv_map comp_def)

lemma sw_cols_ref:
  "sw_cols False go ge sc m (Suc j) n (ref_col sc go ge m j) acc =
     (ref_col sc go ge m (j + n),
      fold scan_step (concat (map (\<lambda>j'. map (\<lambda>i. ((i, j'), fst (hef sc go ge i j'))) [1..<Suc m])
                              [Suc j..<Suc (j + n)])) acc)"
proof (induction n arbitrary: j acc)
  case 0
  then show ?case by simp
next
  case (Suc n)
  have u: "[Suc j..<Suc (Suc (j + n))] = Suc j # [Suc (Suc j)..<Suc (Suc (j + n))]" by (simp add: upt_rec)
  show ?case
    using Suc.IH [of "Suc j"] by (simp add: u sweep_ref_col scan_col_ref del: upt_Suc)
qed

lemma sw_run_ref:
  "sw_run False go ge sc m n =
     fold scan_step (map (\<lambda>c. (c, fst (hef sc go ge (fst c) (snd c)))) (scan_order m n)) (0, 0, 0)"
  using sw_cols_ref [of go ge sc m 0 n "(0, 0, 0)"]
  by (simp add: sw_run_def ref_col_0 scan_order_def map_concat comp_def)

lemma sw_run_false_spec: "sw_run False go ge sc m n = sw_spec sc go ge m n"
proof -
  let ?H = "\<lambda>c. fst (hef sc go ge (fst c) (snd c))"
  let ?xs = "scan_order m n"
  let ?r = "fold max (map ?H ?xs) 0"
  have hs: "map (\<lambda>(i, j). fst (hef sc go ge i j)) ?xs = map ?H ?xs" by (simp add: case_prod_beta')
  have "sw_run False go ge sc m n =
          (if 0 < ?r then (?r, fst (hd (filter (\<lambda>x. snd x = ?r) (map (\<lambda>c. (c, ?H c)) ?xs)))) else (0, 0, 0))"
    by (simp add: sw_run_ref fold_scan_step comp_def Let_def)
  moreover have "0 < ?r \<Longrightarrow> fst (hd (filter (\<lambda>x. snd x = ?r) (map (\<lambda>c. (c, ?H c)) ?xs))) =
                   hd (filter (\<lambda>(i, j). fst (hef sc go ge i j) = ?r) ?xs)"
  proof -
    assume "0 < ?r"
    then have "?r \<in> set (map ?H ?xs)" using fold_max_in [of "map ?H ?xs" 0] by auto
    then obtain c where "c \<in> set ?xs" and "?H c = ?r" by auto
    then have ne: "filter (\<lambda>c. ?H c = ?r) ?xs \<noteq> []" by (auto simp: filter_empty_conv)
    have "filter (\<lambda>x. snd x = ?r) (map (\<lambda>c. (c, ?H c)) ?xs) = map (\<lambda>c. (c, ?H c)) (filter (\<lambda>c. ?H c = ?r) ?xs)"
      by (simp add: filter_map comp_def)
    with ne show ?thesis by (simp add: hd_map case_prod_beta')
  qed
  ultimately show ?thesis by (simp add: sw_spec_def hs Let_def)
qed

subsection \<open>Saturation is exact below the ceiling\<close>

lemma sat_sub_clamp: "x \<le> 32767 \<Longrightarrow> 0 \<le> g \<Longrightarrow> g \<le> 32767 \<Longrightarrow>
    sub_op True (lowclamp x) g = lowclamp (x - g)"
  by (simp add: sub_op_def sat16_def lowclamp_def max_def min_def)

lemma sat_sub_exact: "0 \<le> x \<Longrightarrow> x \<le> 32767 \<Longrightarrow> 0 \<le> g \<Longrightarrow> g \<le> 32767 \<Longrightarrow>
    sub_op True x g = x - g"
  by (simp add: sub_op_def)

lemma max_lowclamp: "-32768 \<le> a \<Longrightarrow> max a (lowclamp b) = lowclamp (max a b)"
  by (simp add: lowclamp_def max_def)

lemma max_lowclamp_0: "max (lowclamp a) 0 = max a 0"
  by (simp add: lowclamp_def max_def)

lemma sat_gap_step:
  fixes hl el go ge :: int
  assumes p: "word_params go ge" and l: "0 \<le> hl" "hl \<le> 32767" "el \<le> 32767"
  shows "max (sub_op True hl go) (sub_op True (lowclamp el) ge) = lowclamp (max (hl - go) (el - ge))"
  using assms by (simp add: word_params_def sat_sub_exact sat_sub_clamp max_lowclamp)

lemma sat_cell_step:
  fixes hl el fl hg hu fu s go ge :: int
  assumes p: "word_params go ge" and sc: "-32768 \<le> s" "s \<le> 32767"
    and l: "0 \<le> hl" "hl \<le> 32767" "el \<le> 32767" and g: "0 \<le> hg" "hg \<le> 32767"
    and u: "0 \<le> hu" "hu \<le> 32767" "fu \<le> 32767"
    and top: "max (max (hg + s) (max (hl - go) (el - ge))) (max (max (hu - go) (fu - ge)) 0) \<le> 32767"
  shows "max (sub_op True hl go) (sub_op True (lowclamp el) ge) = lowclamp (max (hl - go) (el - ge))"
    and "max (sub_op True hu go) (sub_op True (lowclamp fu) ge) = lowclamp (max (hu - go) (fu - ge))"
    and "max (max (add_op True hg s) (lowclamp (max (hl - go) (el - ge))))
             (max (lowclamp (max (hu - go) (fu - ge))) 0) =
         max (max (hg + s) (max (hl - go) (el - ge))) (max (max (hu - go) (fu - ge)) 0)"
proof -
  from p have go: "0 \<le> go" "go \<le> 32767" and ge: "0 \<le> ge" "ge \<le> 32767"
    by (simp_all add: word_params_def)
  show "max (sub_op True hl go) (sub_op True (lowclamp el) ge) = lowclamp (max (hl - go) (el - ge))"
    using sat_gap_step [OF p l] .
  show "max (sub_op True hu go) (sub_op True (lowclamp fu) ge) = lowclamp (max (hu - go) (fu - ge))"
    using sat_gap_step [OF p u] .
  have a: "add_op True hg s = hg + s"
    using top sc g by (simp add: add_op_def)
  have "max (max (hg + s) (lowclamp (max (hl - go) (el - ge)))) (max (lowclamp (max (hu - go) (fu - ge))) 0) =
        max (max (hg + s) (max (hl - go) (el - ge))) (max (max (hu - go) (fu - ge)) 0)"
    unfolding max_lowclamp_0 by (simp add: lowclamp_def max_def)
  with a show "max (max (add_op True hg s) (lowclamp (max (hl - go) (el - ge))))
             (max (lowclamp (max (hu - go) (fu - ge))) 0) =
         max (max (hg + s) (max (hl - go) (el - ge))) (max (max (hu - go) (fu - ge)) 0)"
    by simp
qed

lemma sweep_sat:
  assumes p: "word_params go ge" and sc: "\<forall>s\<in>set ss. -32768 \<le> s \<and> s \<le> 32767"
    and rel: "list_all2 sat_rel ps pi" and bnd: "\<forall>c\<in>set pi. cell_bnd c"
    and g: "0 \<le> hg" "hg \<le> 32767" and u: "0 \<le> hu" "hu \<le> 32767" "fu \<le> 32767"
    and top: "\<forall>c\<in>set (sweep False go ge ss pi hg hu fu). fst c \<le> 32767"
  shows "list_all2 sat_rel (sweep True go ge ss ps hg hu (lowclamp fu)) (sweep False go ge ss pi hg hu fu) \<and>
         (\<forall>c\<in>set (sweep False go ge ss pi hg hu fu). cell_bnd c)"
  using sc rel bnd g u top
proof (induction ss arbitrary: ps pi hg hu fu)
  case Nil
  then show ?case by simp
next
  case (Cons s ss)
  show ?case
  proof (cases pi)
    case Nil
    with Cons.prems(2) show ?thesis by simp
  next
    case (Cons ci pi')
    obtain hl el fl where ci: "ci = (hl, el, fl)" by (metis prod.exhaust)
    from Cons.prems(2) \<open>pi = ci # pi'\<close> obtain cs ps' where ps: "ps = cs # ps'" and
      r: "sat_rel cs ci" and rs: "list_all2 sat_rel ps' pi'"
      by (auto simp: list_all2_Cons2)
    from r ci have cs: "cs = (hl, lowclamp el, lowclamp fl)"
      by (cases cs) (auto simp: sat_rel_def)
    from Cons.prems(3) \<open>pi = ci # pi'\<close> ci have l: "0 \<le> hl" "hl \<le> 32767" "el \<le> 32767" "\<forall>c\<in>set pi'. cell_bnd c"
      by (auto simp: cell_bnd_def)
    let ?e = "max (hl - go) (el - ge)" and ?f = "max (hu - go) (fu - ge)"
    let ?h = "max (max (hg + s) ?e) (max ?f 0)"
    have sF: "sweep False go ge (s # ss) pi hg hu fu = (?h, ?e, ?f) # sweep False go ge ss pi' hl ?h ?f"
      by (simp only: \<open>pi = ci # pi'\<close> ci sweep.simps list.case prod.case Let_def
          add_op_def sub_op_def if_False)
    have top: "?h \<le> 32767" and top': "\<forall>c\<in>set (sweep False go ge ss pi' hl ?h ?f). fst c \<le> 32767"
      using Cons.prems(9) unfolding sF by simp_all
    note step = sat_cell_step [OF p _ _ l(1-3) Cons.prems(4,5) Cons.prems(6,7,8) top]
    have sc1: "-32768 \<le> s" "s \<le> 32767" and sc': "\<forall>s\<in>set ss. -32768 \<le> s \<and> s \<le> 32767"
      using Cons.prems(1) by simp_all
    have f32: "?f \<le> 32767" and h0: "0 \<le> ?h"
      using Cons.prems(6-8) p l(2) by (simp_all add: word_params_def)
    have ih: "list_all2 sat_rel (sweep True go ge ss ps' hl ?h (lowclamp ?f)) (sweep False go ge ss pi' hl ?h ?f) \<and>
              (\<forall>c\<in>set (sweep False go ge ss pi' hl ?h ?f). cell_bnd c)"
      by (rule Cons.IH [OF sc' rs l(4) l(1,2) h0 top f32 top'])
    have cb: "cell_bnd (?h, ?e, ?f)" using f32 h0 top l(2,3) p
      unfolding cell_bnd_def by (simp add: word_params_def)
    have sT: "sweep True go ge (s # ss) ps hg hu (lowclamp fu) =
        (?h, lowclamp ?e, lowclamp ?f) # sweep True go ge ss ps' hl ?h (lowclamp ?f)"
      by (simp only: ps cs sweep.simps list.case prod.case Let_def step(1-3) [OF sc1])
    have "sat_rel (?h, lowclamp ?e, lowclamp ?f) (?h, ?e, ?f)" by (simp add: sat_rel_def)
    then show ?thesis unfolding sT sF using ih cb by simp
  qed
qed


lemma scan_col_sat: "list_all2 sat_rel A B \<Longrightarrow> scan_col j i A acc = scan_col j i B acc"
proof (induction A arbitrary: B i acc)
  case Nil
  then show ?case by simp
next
  case (Cons a A)
  then obtain b B' where "B = b # B'" "sat_rel a b" "list_all2 sat_rel A B'"
    by (auto simp: list_all2_Cons1)
  then have "B = b # B'" "fst a = fst b" "list_all2 sat_rel A B'"
    by (simp_all add: sat_rel_def)
  with Cons.IH show ?case by simp
qed

lemma lowclamp_0 [simp]: "lowclamp 0 = 0"
  by (simp add: lowclamp_def)

lemma sw_cols_sat:
  assumes p: "word_params go ge" and s: "scores16 sc"
    and rel: "list_all2 sat_rel cs (ref_col sc go ge m j)"
    and bnd: "\<forall>c\<in>set (ref_col sc go ge m j). cell_bnd c"
    and top: "\<forall>j' i. Suc j \<le> j' \<and> j' \<le> j + n \<and> 1 \<le> i \<and> i \<le> m \<longrightarrow> fst (hef sc go ge i j') \<le> 32767"
  shows "snd (sw_cols True go ge sc m (Suc j) n cs acc) =
         snd (sw_cols False go ge sc m (Suc j) n (ref_col sc go ge m j) acc)"
  using rel bnd top
proof (induction n arbitrary: j cs acc)
  case 0
  then show ?case by simp
next
  case (Suc n)
  have ss: "\<forall>x\<in>set (col_scores sc m (Suc j)). -32768 \<le> x \<and> x \<le> 32767"
    using s by (auto simp: col_scores_def scores16_def)
  have t: "\<forall>c\<in>set (sweep False go ge (col_scores sc m (Suc j)) (ref_col sc go ge m j) 0 0 0). fst c \<le> 32767"
    unfolding sweep_ref_col using Suc.prems(3) by (auto simp: ref_col_def)
  from sweep_sat [OF p ss Suc.prems(1,2) _ _ _ _ _ t]
  have col: "list_all2 sat_rel (sweep True go ge (col_scores sc m (Suc j)) cs 0 0 0) (ref_col sc go ge m (Suc j))"
    and cb: "\<forall>c\<in>set (ref_col sc go ge m (Suc j)). cell_bnd c"
    by (simp_all add: sweep_ref_col)
  have top': "\<forall>j' i. Suc (Suc j) \<le> j' \<and> j' \<le> Suc j + n \<and> 1 \<le> i \<and> i \<le> m \<longrightarrow> fst (hef sc go ge i j') \<le> 32767"
    using Suc.prems(3) by simp
  show ?case
    using Suc.IH [OF col cb top'] scan_col_sat [OF col]
    by (simp add: Let_def sweep_ref_col)
qed

lemma fold_max_ge_elem: "x \<in> set hs \<Longrightarrow> (x :: int) \<le> fold max hs a"
proof (induction hs arbitrary: a)
  case (Cons y hs)
  then show ?case
  proof (cases "x = y")
    case True
    have "y \<le> max y a" by simp
    also have "\<dots> \<le> fold max hs (max y a)" by (rule fold_max_ge)
    finally show ?thesis using True by simp
  next
    case False
    with Cons show ?thesis by simp
  qed
qed simp

lemma set_scan_order: "(i, j) \<in> set (scan_order m n) \<longleftrightarrow> 1 \<le> i \<and> i \<le> m \<and> 1 \<le> j \<and> j \<le> n"
  by (auto simp: scan_order_def image_iff)

lemma hef_le_spec:
  assumes "1 \<le> i" "i \<le> m" "1 \<le> j" "j \<le> n"
  shows "fst (hef sc go ge i j) \<le> fst (sw_spec sc go ge m n)"
proof -
  let ?hs = "map (\<lambda>(i, j). fst (hef sc go ge i j)) (scan_order m n)"
  have "(i, j) \<in> set (scan_order m n)" using assms by (simp add: set_scan_order)
  then have "fst (hef sc go ge i j) \<in> set ?hs"
    unfolding set_map by (rule rev_image_eqI) simp
  then have "fst (hef sc go ge i j) \<le> fold max ?hs 0" by (rule fold_max_ge_elem)
  then show ?thesis by (simp add: sw_spec_def Let_def)
qed

lemma sw_run_sat_exact:
  assumes p: "word_params go ge" and s: "scores16 sc"
    and top: "fst (sw_spec sc go ge m n) \<le> 32767"
  shows "sw_run True go ge sc m n = sw_spec sc go ge m n"
proof -
  have rel: "list_all2 sat_rel (replicate m (0, 0, 0)) (ref_col sc go ge m 0)"
    by (simp add: ref_col_0 list_all2_conv_all_nth sat_rel_def)
  have bnd: "\<forall>c\<in>set (ref_col sc go ge m 0). cell_bnd c"
    by (simp add: ref_col_0 cell_bnd_def)
  have t: "\<forall>j' i. Suc 0 \<le> j' \<and> j' \<le> 0 + n \<and> 1 \<le> i \<and> i \<le> m \<longrightarrow> fst (hef sc go ge i j') \<le> 32767"
    using hef_le_spec [where m = m and n = n and sc = sc and go = go and ge = ge] top by fastforce
  have "sw_run True go ge sc m n = sw_run False go ge sc m n"
    using sw_cols_sat [OF p s rel bnd t, of "(0, 0, 0)"] by (simp add: sw_run_def ref_col_0)
  then show ?thesis by (simp add: sw_run_false_spec)
qed


subsection \<open>The 16-bit ceiling\<close>

lemma sweep_true_bnd: "\<forall>c\<in>set (sweep True go ge ss prev hg hu fu). h_bnd c"
proof (induction ss arbitrary: prev hg hu fu)
  case (Cons s ss)
  show ?case
  proof (cases prev)
    case (Cons c prev')
    obtain hl el fl where "c = (hl, el, fl)" by (metis prod.exhaust)
    with Cons Cons.IH sat16_range show ?thesis
      by (simp add: Let_def add_op_def sub_op_def h_bnd_def)
  qed simp
qed simp

lemma scan_col_bnd:
  "\<forall>c\<in>set cs. h_bnd c \<Longrightarrow> h_bnd (fst acc, 0, 0) \<Longrightarrow> h_bnd (fst (scan_col j i cs acc), 0, 0)"
proof (induction cs arbitrary: i acc)
  case (Cons c cs)
  then show ?case by (simp add: h_bnd_def)
qed simp

lemma sw_cols_true_bnd:
  "h_bnd (fst acc, 0, 0) \<Longrightarrow> h_bnd (fst (snd (sw_cols True go ge sc m j n col acc)), 0, 0)"
proof (induction n arbitrary: j col acc)
  case (Suc n)
  then show ?case by (simp add: Let_def scan_col_bnd sweep_true_bnd)
qed simp

subsection \<open>Scores that never reward an alignment\<close>

lemma hef_nonpos:
  assumes "\<forall>i j. sc i j \<le> 0" "0 \<le> go" "0 \<le> ge"
  shows "fst (hef sc go ge i j) = 0 \<and> fst (snd (hef sc go ge i j)) \<le> 0 \<and> snd (snd (hef sc go ge i j)) \<le> 0"
proof (induction i arbitrary: j)
  case 0
  then show ?case by simp
next
  case (Suc i)
  note row = Suc.IH
  show ?case
  proof (induction j)
    case (Suc j)
    from Suc.IH row [of j] row [of "Suc j"] assms show ?case
      by (simp add: hef_Suc_Suc Let_def)
  qed simp
qed

lemma fold_max_const: "\<forall>x\<in>set hs. x = a \<Longrightarrow> fold max hs (a :: int) = a"
  using fold_max_in [of hs a] by auto

lemma sw_spec_nonpos:
  assumes "\<forall>i j. sc i j \<le> 0" "0 \<le> go" "0 \<le> ge"
  shows "sw_spec sc go ge m n = (0, 0, 0)"
proof -
  have "fold max (map (\<lambda>(i, j). fst (hef sc go ge i j)) (scan_order m n)) 0 = 0"
    using hef_nonpos [OF assms] by (intro fold_max_const) auto
  then show ?thesis by (simp add: sw_spec_def Let_def)
qed

subsection \<open>The diagonal is a lower bound\<close>

lemma hef_diag: "sum_list (map (\<lambda>l. sc l l) [1..<Suc k]) \<le> fst (hef sc go ge k k)"
proof (induction k)
  case (Suc k)
  have "fst (hef sc go ge k k) + sc (Suc k) (Suc k) \<le> fst (hef sc go ge (Suc k) (Suc k))"
    by (simp add: hef_Suc_Suc Let_def)
  with Suc.IH show ?case by simp
qed simp

lemma hef_le_spec_diag:
  "1 \<le> k \<Longrightarrow> k \<le> m \<Longrightarrow> k \<le> n \<Longrightarrow>
   sum_list (map (\<lambda>l. sc l l) [1..<Suc k]) \<le> fst (sw_spec sc go ge m n)"
  using hef_diag [of sc k go ge] hef_le_spec [of k m k n sc go ge] by simp


subsection \<open>The reported cell is the first maximal one\<close>

lemma hd_filter_split:
  assumes "filter P xs \<noteq> []"
  shows "\<exists>us vs. xs = us @ hd (filter P xs) # vs \<and> (\<forall>u\<in>set us. \<not> P u)"
proof -
  have "filter P xs = hd (filter P xs) # tl (filter P xs)" using assms by simp
  from filter_eq_ConsD [OF this] show ?thesis by blast
qed

lemma sw_spec_first:
  assumes "sw_spec sc go ge m n = (r, i, j)" and "0 < r"
  shows "fst (hef sc go ge i j) = r \<and>
         (\<exists>us vs. scan_order m n = us @ (i, j) # vs \<and> (\<forall>c\<in>set us. fst (hef sc go ge (fst c) (snd c)) < r))"
proof -
  let ?P = "\<lambda>(i, j). fst (hef sc go ge i j)"
  let ?xs = "scan_order m n"
  let ?r = "fold max (map ?P ?xs) 0"
  have def: "sw_spec sc go ge m n =
      (if 0 < ?r then (?r, hd (filter (\<lambda>c. ?P c = ?r) ?xs)) else (0, 0, 0))"
    by (simp add: sw_spec_def Let_def case_prod_beta')
  have pos: "0 < ?r"
    using assms by (metis def fst_conv less_irrefl)
  then have "(?r, hd (filter (\<lambda>c. ?P c = ?r) ?xs)) = sw_spec sc go ge m n"
    unfolding def by simp
  also note assms(1)
  finally obtain r: "?r = r" and c0: "hd (filter (\<lambda>c. ?P c = ?r) ?xs) = (i, j)"
    by (rule Pair_inject)
  note c = c0 [symmetric] and r = r [symmetric]
  have "?r \<in> insert 0 (set (map ?P ?xs))" by (rule fold_max_in)
  then obtain c0 where "c0 \<in> set ?xs" "?P c0 = ?r" using pos by auto
  then have ne: "filter (\<lambda>c. ?P c = ?r) ?xs \<noteq> []"
    by (auto simp: filter_empty_conv)
  have hij: "?P (i, j) = ?r"
    using hd_in_set [OF ne] unfolding c [symmetric] by simp
  obtain us vs where xs: "?xs = us @ (i, j) # vs" and us: "\<forall>u\<in>set us. ?P u \<noteq> ?r"
    using hd_filter_split [OF ne] unfolding c [symmetric] by blast
  have "\<forall>u\<in>set us. ?P u < ?r"
  proof
    fix u assume u: "u \<in> set us"
    then have "u \<in> set ?xs" using xs by simp
    then have "?P u \<le> ?r" by (intro fold_max_ge_elem) simp
    with us u show "?P u < ?r" by fastforce
  qed
  then show ?thesis using xs hij r by (auto simp: case_prod_beta')
qed


lemma sw_run_true_bnd: "h_bnd (fst (sw_run True go ge sc m n), 0, 0)"
  unfolding sw_run_def by (rule sw_cols_true_bnd) (simp add: h_bnd_def)

subsection \<open>Saturation clamps at the ceiling\<close>

text \<open>In the column where the recurrence first exceeds 32767, the saturating sweep
  reaches exactly 32767: the cells above the crossing cell and the previous column are
  still exact, and the crossing cell's diagonal sum saturates.\<close>

lemma sweep_sat_cross:
  assumes p: "word_params go ge" and sc: "\<forall>s\<in>set ss. -32768 \<le> s \<and> s \<le> 32767"
    and rel: "list_all2 sat_rel ps pi" and bnd: "\<forall>c\<in>set pi. cell_bnd c"
    and g: "0 \<le> hg" "hg \<le> 32767" and u: "0 \<le> hu" "hu \<le> 32767" "fu \<le> 32767"
    and cross: "\<exists>c\<in>set (sweep False go ge ss pi hg hu fu). 32767 < fst c"
  shows "\<exists>c\<in>set (sweep True go ge ss ps hg hu (lowclamp fu)). fst c = 32767"
  using sc rel bnd g u cross
proof (induction ss arbitrary: ps pi hg hu fu)
  case Nil
  then show ?case by simp
next
  case (Cons s ss)
  show ?case
  proof (cases pi)
    case Nil
    with Cons.prems(9) show ?thesis by simp
  next
    case (Cons ci pi')
    obtain hl el fl where ci: "ci = (hl, el, fl)" by (metis prod.exhaust)
    from Cons.prems(2) \<open>pi = ci # pi'\<close> obtain cs ps' where ps: "ps = cs # ps'" and
      r: "sat_rel cs ci" and rs: "list_all2 sat_rel ps' pi'"
      by (auto simp: list_all2_Cons2)
    from r ci have cs: "cs = (hl, lowclamp el, lowclamp fl)"
      by (cases cs) (auto simp: sat_rel_def)
    from Cons.prems(3) \<open>pi = ci # pi'\<close> ci have l: "0 \<le> hl" "hl \<le> 32767" "el \<le> 32767" "\<forall>c\<in>set pi'. cell_bnd c"
      by (auto simp: cell_bnd_def)
    let ?e = "max (hl - go) (el - ge)" and ?f = "max (hu - go) (fu - ge)"
    let ?h = "max (max (hg + s) ?e) (max ?f 0)"
    let ?hT = "max (max (add_op True hg s) (lowclamp ?e)) (max (lowclamp ?f) 0)"
    have sF: "sweep False go ge (s # ss) pi hg hu fu = (?h, ?e, ?f) # sweep False go ge ss pi' hl ?h ?f"
      by (simp only: \<open>pi = ci # pi'\<close> ci sweep.simps list.case prod.case Let_def
          add_op_def sub_op_def if_False)
    have sT: "sweep True go ge (s # ss) ps hg hu (lowclamp fu) =
        (?hT, lowclamp ?e, lowclamp ?f) # sweep True go ge ss ps' hl ?hT (lowclamp ?f)"
      by (simp only: ps cs sweep.simps list.case prod.case Let_def
          sat_gap_step [OF p l(1-3)] sat_gap_step [OF p Cons.prems(6-8)])
    have sc1: "-32768 \<le> s" "s \<le> 32767" and sc': "\<forall>s\<in>set ss. -32768 \<le> s \<and> s \<le> 32767"
      using Cons.prems(1) by simp_all
    have e32: "?e \<le> 32767" and f32: "?f \<le> 32767" and h0: "0 \<le> ?h"
      using p l(2,3) Cons.prems(7,8) by (simp_all add: word_params_def)
    show ?thesis
    proof (cases "?h \<le> 32767")
      case True
      note step = sat_cell_step [OF p sc1 l(1-3) Cons.prems(4,5) Cons.prems(6,7,8) True]
      have hT: "?hT = ?h" by (rule step(3))
      have "\<exists>c\<in>set (sweep False go ge ss pi' hl ?h ?f). 32767 < fst c"
        using Cons.prems(9) True unfolding sF by auto
      from Cons.IH [OF sc' rs l(4) l(1,2) h0 True f32 this]
      show ?thesis unfolding sT hT by auto
    next
      case False
      then have "32767 < hg + s" using e32 f32 by simp
      then have "add_op True hg s = 32767" by (simp add: add_op_def sat16_def)
      then have "?hT = 32767" using e32 f32 by (simp add: lowclamp_def)
      then show ?thesis unfolding sT by simp
    qed
  qed
qed

lemma scan_col_ge:
  "fst acc \<le> fst (scan_col j i cs acc) \<and> (\<forall>c\<in>set cs. fst c \<le> fst (scan_col j i cs acc))"
proof (induction cs arbitrary: i acc)
  case (Cons c cs)
  from Cons.IH [where i = "Suc i" and acc = "if fst acc < fst c then (fst c, i, j) else acc"] show ?case
    by (auto split: if_splits)
qed simp

lemma sw_cols_ge: "fst acc \<le> fst (snd (sw_cols sat go ge sc m j n col acc))"
proof (induction n arbitrary: j col acc)
  case (Suc n)
  from Suc.IH [where j = "Suc j" and col = "sweep sat go ge (col_scores sc m j) col 0 0 0"
      and acc = "scan_col j 1 (sweep sat go ge (col_scores sc m j) col 0 0 0) acc"]
    scan_col_ge [of acc j 1 "sweep sat go ge (col_scores sc m j) col 0 0 0"]
  show ?case by (simp add: Let_def)
qed simp

lemma sw_cols_sat_cross:
  assumes p: "word_params go ge" and s: "scores16 sc"
    and rel: "list_all2 sat_rel cs (ref_col sc go ge m j)"
    and bnd: "\<forall>c\<in>set (ref_col sc go ge m j). cell_bnd c"
    and cross: "\<exists>j' i. Suc j \<le> j' \<and> j' \<le> j + n \<and> 1 \<le> i \<and> i \<le> m \<and> 32767 < fst (hef sc go ge i j')"
    and acc: "h_bnd (fst acc, 0, 0)"
  shows "fst (snd (sw_cols True go ge sc m (Suc j) n cs acc)) = 32767"
  using rel bnd cross acc
proof (induction n arbitrary: j cs acc)
  case 0
  then show ?case by auto
next
  case (Suc n)
  let ?colT = "sweep True go ge (col_scores sc m (Suc j)) cs 0 0 0"
  let ?acc' = "scan_col (Suc j) 1 ?colT acc"
  have unf: "sw_cols True go ge sc m (Suc j) (Suc n) cs acc = sw_cols True go ge sc m (Suc (Suc j)) n ?colT ?acc'"
    by (simp add: Let_def)
  have ss: "\<forall>x\<in>set (col_scores sc m (Suc j)). -32768 \<le> x \<and> x \<le> 32767"
    using s by (auto simp: col_scores_def scores16_def)
  have acc': "h_bnd (fst ?acc', 0, 0)"
    using scan_col_bnd [OF sweep_true_bnd Suc.prems(4)] .
  have le: "fst (snd (sw_cols True go ge sc m (Suc (Suc j)) n ?colT ?acc')) \<le> 32767"
    using sw_cols_true_bnd [OF acc'] by (simp add: h_bnd_def)
  show ?case
  proof (cases "\<exists>i. 1 \<le> i \<and> i \<le> m \<and> 32767 < fst (hef sc go ge i (Suc j))")
    case True
    then have "\<exists>c\<in>set (sweep False go ge (col_scores sc m (Suc j)) (ref_col sc go ge m j) 0 0 0). 32767 < fst c"
      unfolding sweep_ref_col by (auto simp: ref_col_def)
    from sweep_sat_cross [OF p ss Suc.prems(1,2) _ _ _ _ _ this]
    obtain c where "c \<in> set ?colT" "fst c = 32767" by auto
    then have "32767 \<le> fst ?acc'" using scan_col_ge [of acc "Suc j" 1 ?colT] by auto
    then have "32767 \<le> fst (snd (sw_cols True go ge sc m (Suc (Suc j)) n ?colT ?acc'))"
      using sw_cols_ge [of ?acc' True go ge sc m "Suc (Suc j)" n ?colT] by simp
    with le show ?thesis unfolding unf by simp
  next
    case False
    then have t: "\<forall>c\<in>set (sweep False go ge (col_scores sc m (Suc j)) (ref_col sc go ge m j) 0 0 0). fst c \<le> 32767"
      unfolding sweep_ref_col by (auto simp: ref_col_def not_less)
    from sweep_sat [OF p ss Suc.prems(1,2) _ _ _ _ _ t]
    have col: "list_all2 sat_rel ?colT (ref_col sc go ge m (Suc j))"
      and cb: "\<forall>c\<in>set (ref_col sc go ge m (Suc j)). cell_bnd c"
      by (simp_all add: sweep_ref_col)
    have "\<exists>j' i. Suc (Suc j) \<le> j' \<and> j' \<le> Suc j + n \<and> 1 \<le> i \<and> i \<le> m \<and> 32767 < fst (hef sc go ge i j')"
    proof -
      obtain j' i where "Suc j \<le> j'" "j' \<le> j + Suc n" "1 \<le> i" "i \<le> m" "32767 < fst (hef sc go ge i j')"
        using Suc.prems(3) by blast
      moreover from False calculation(3-5) have "j' \<noteq> Suc j" by blast
      ultimately show ?thesis by (intro exI [of _ j'] exI [of _ i]) simp
    qed
    from Suc.IH [OF col cb this acc'] show ?thesis unfolding unf .
  qed
qed

lemma sw_run_sat_ceiling:
  assumes p: "word_params go ge" and s: "scores16 sc"
    and top: "32767 \<le> fst (sw_spec sc go ge m n)"
  shows "fst (sw_run True go ge sc m n) = 32767"
proof (cases "fst (sw_spec sc go ge m n) = 32767")
  case True
  then show ?thesis using sw_run_sat_exact [OF p s] by simp
next
  case False
  let ?hs = "map (\<lambda>(i, j). fst (hef sc go ge i j)) (scan_order m n)"
  have pos: "0 < fold max ?hs 0" and r: "fst (sw_spec sc go ge m n) = fold max ?hs 0"
    using top by (simp_all add: sw_spec_def Let_def split: if_splits)
  have "fold max ?hs 0 \<in> insert 0 (set ?hs)" by (rule fold_max_in)
  then obtain i j where ij: "(i, j) \<in> set (scan_order m n)" "fst (hef sc go ge i j) = fold max ?hs 0"
    using pos by auto
  have big: "32767 < fst (hef sc go ge i j)" using ij(2) top False r by linarith
  from ij(1) have "1 \<le> i \<and> i \<le> m \<and> 1 \<le> j \<and> j \<le> n" by (simp add: set_scan_order)
  with big have cross: "\<exists>j' i. Suc 0 \<le> j' \<and> j' \<le> 0 + n \<and> 1 \<le> i \<and> i \<le> m \<and> 32767 < fst (hef sc go ge i j')"
    by auto
  have rel: "list_all2 sat_rel (replicate m (0, 0, 0)) (ref_col sc go ge m 0)"
    by (simp add: ref_col_0 list_all2_conv_all_nth sat_rel_def)
  have bnd: "\<forall>c\<in>set (ref_col sc go ge m 0). cell_bnd c"
    by (simp add: ref_col_0 cell_bnd_def)
  from sw_cols_sat_cross [OF p s rel bnd cross, of "(0, 0, 0)"] show ?thesis
    by (simp add: sw_run_def h_bnd_def)
qed

text \<open>Together: the kernel reports the best local score clamped at the 16-bit ceiling.\<close>

lemma sw_run_sat_min:
  assumes "word_params go ge" and "scores16 sc"
  shows "fst (sw_run True go ge sc m n) = min (fst (sw_spec sc go ge m n)) 32767"
proof (cases "fst (sw_spec sc go ge m n) \<le> 32767")
  case True
  then show ?thesis using sw_run_sat_exact [OF assms] by simp
next
  case False
  then show ?thesis using sw_run_sat_ceiling [OF assms] by simp
qed

subsection \<open>Only the scores inside the matrix matter\<close>

lemma sw_cols_cong:
  "\<forall>i j. 1 \<le> i \<and> i \<le> m \<and> j0 \<le> j \<and> j < j0 + n \<longrightarrow> sc i j = sc' i j \<Longrightarrow>
   sw_cols sat go ge sc m j0 n col acc = sw_cols sat go ge sc' m j0 n col acc"
proof (induction n arbitrary: j0 col acc)
  case (Suc n)
  have "col_scores sc m j0 = col_scores sc' m j0"
    unfolding col_scores_def using Suc.prems by (intro map_cong) auto
  moreover have "\<forall>i j. 1 \<le> i \<and> i \<le> m \<and> Suc j0 \<le> j \<and> j < Suc j0 + n \<longrightarrow> sc i j = sc' i j"
    using Suc.prems by simp
  ultimately show ?case by (simp add: Let_def Suc.IH)
qed simp

lemma sw_run_cong:
  "\<forall>i j. 1 \<le> i \<and> i \<le> m \<and> 1 \<le> j \<and> j \<le> n \<longrightarrow> sc i j = sc' i j \<Longrightarrow>
   sw_run sat go ge sc m n = sw_run sat go ge sc' m n"
  unfolding sw_run_def by (subst sw_cols_cong) auto

subsection \<open>Reported positions lie inside the matrix\<close>

lemma length_sweep [simp]: "length (sweep sat go ge ss prev hg hu fu) = min (length ss) (length prev)"
proof (induction ss arbitrary: prev hg hu fu)
  case (Cons s ss)
  then show ?case by (cases prev) (auto simp: Let_def)
qed simp

lemma scan_col_pos:
  "fst (snd acc) \<le> k \<Longrightarrow> i + length cs \<le> Suc k \<Longrightarrow> snd (snd acc) < J \<Longrightarrow> j < J \<Longrightarrow>
   fst (snd (scan_col j i cs acc)) \<le> k \<and> snd (snd (scan_col j i cs acc)) < J"
proof (induction cs arbitrary: i acc)
  case (Cons c cs)
  then show ?case by simp
qed simp

lemma sw_cols_pos:
  "length col = m \<Longrightarrow> fst (snd acc) \<le> m \<Longrightarrow> snd (snd acc) < j0 + n \<Longrightarrow>
   fst (snd (snd (sw_cols sat go ge sc m j0 n col acc))) \<le> m \<and>
   snd (snd (snd (sw_cols sat go ge sc m j0 n col acc))) < j0 + n"
proof (induction n arbitrary: j0 col acc)
  case (Suc n)
  let ?col = "sweep sat go ge (col_scores sc m j0) col 0 0 0"
  have l: "length ?col = m" using Suc.prems(1) by (simp add: col_scores_def)
  have "fst (snd (scan_col j0 1 ?col acc)) \<le> m \<and> snd (snd (scan_col j0 1 ?col acc)) < j0 + Suc n"
    using Suc.prems(2,3) l by (intro scan_col_pos) simp_all
  then show ?case using Suc.IH [OF l, of "scan_col j0 1 ?col acc" "Suc j0"] by (simp add: Let_def)
qed simp

lemma sw_run_pos:
  "fst (snd (sw_run sat go ge sc m n)) \<le> m \<and> snd (snd (sw_run sat go ge sc m n)) \<le> n"
  using sw_cols_pos [of "replicate m (0, 0, 0)" m "(0, 0, 0)" 1 n sat go ge sc]
  by (simp add: sw_run_def)

subsection \<open>Kernel-level results\<close>

text \<open>Ties go to the first cell in scan order: when the kernel reports a
  positive score \<open>r\<close> at \<open>(i, j)\<close> (and the best score fits in 16 bits), H at \<open>(i, j)\<close> is
  \<open>r\<close> and every cell before \<open>(i, j)\<close> in the kernel's scan order (target position outer,
  query position inner) scores strictly less.\<close>

lemma sw_word_first_max:
  assumes "word_params go ge" and "scores16 sc" and "fst (sw_spec sc go ge m n) \<le> 32767"
    and "sw_run True go ge sc m n = (r, i, j)" and "0 < r"
  shows "fst (hef sc go ge i j) = r \<and>
         (\<exists>us vs. scan_order m n = us @ (i, j) # vs \<and> (\<forall>c\<in>set us. fst (hef sc go ge (fst c) (snd c)) < r))"
  using sw_spec_first [OF _ assms(5)] assms(4) sw_run_sat_exact [OF assms(1-3)] by simp

text \<open>Scenario B of the spec: when no pair of residues scores positively
  the kernel reports the local-alignment floor, score 0 at position \<open>(0, 0)\<close>.\<close>

lemma sw_word_nonpositive:
  assumes "word_params go ge" and "scores16 sc" and "\<forall>i j. sc i j \<le> 0"
  shows "sw_run True go ge sc m n = (0, 0, 0)"
proof -
  have gg: "0 \<le> go" "0 \<le> ge" using assms(1) by (simp_all add: word_params_def)
  have sp: "sw_spec sc go ge m n = (0, 0, 0)" by (rule sw_spec_nonpos [OF assms(3) gg])
  then have "fst (sw_spec sc go ge m n) \<le> 32767" by simp
  from sw_run_sat_exact [OF assms(1,2) this] sp show ?thesis by simp
qed

text \<open>The main diagonal is a lower bound: the reported score is at least the
  sum of the scores of the first \<open>k\<close> diagonal pairs, for every \<open>k\<close> up to both lengths
  (the spec's self-alignment property), when the best score fits in 16 bits.\<close>

lemma sw_word_diagonal_bound:
  assumes "word_params go ge" and "scores16 sc" and "fst (sw_spec sc go ge m n) \<le> 32767"
    and "1 \<le> k" and "k \<le> m" and "k \<le> n"
  shows "sum_list (map (\<lambda>l. sc l l) [1..<Suc k]) \<le> fst (sw_run True go ge sc m n)"
  using hef_le_spec_diag [OF assms(4-6)] sw_run_sat_exact [OF assms(1-3)] by simp

subsection \<open>A worked example\<close>

text \<open>The fixture evaluates: best score 15 at query position 3, target position 3.\<close>

lemma ex_scores16: "scores16 ex_scores"
  by (simp add: scores16_def ex_scores_def)

lemma ex_spec: "sw_spec ex_scores 10 1 5 3 = (15, 3, 3)"
  by code_simp

end
