(* ===== verification/Statistics.thy ===== *)
theory Statistics
  imports Complex_Main Prelude
begin

text \<open>
  The statistics step of \<open>Matcher::getSWResult\<close> (\<open>src/src/alignment/Matcher.cpp\<close>,
  lines 56--58): query and target coverage from the alignment coordinates, which the
  caller holds as \<open>unsigned short\<close>, and the e-value
  \<open>seqDbSize * qL * dbL * 2^(-s / bitFactor)\<close>. The product \<open>seqDbSize * query->L * dbSeq->L\<close>
  is evaluated in 32-bit \<open>int\<close> before the conversion to \<open>double\<close>, so it is written
  with its wrap-around. Floating-point rounding is not modelled: \<open>float\<close> and \<open>double\<close>
  are reals, and \<open>fpow2\<close>, which the code calls but which is defined outside the
  repository, is the exact power of two. No property here depends on the value of that
  power beyond its being positive; in particular its underflow to 0 for large scores is
  not modelled, and the spec's strictly decreasing e-value is not claimed. A division by
  a zero length, which yields a NaN or an infinity in the source, is the value \<open>None\<close>.
\<close>

definition coverage :: "nat \<Rightarrow> u16 \<Rightarrow> u16 \<Rightarrow> real option" where
  "coverage l endPos startPos =
     (if l = 0 then None
      else Some (real_of_int (min (int l) (uint endPos) - uint startPos) / real l))"

definition evalue :: "int \<Rightarrow> nat \<Rightarrow> nat \<Rightarrow> int \<Rightarrow> real \<Rightarrow> real" where
  "evalue seqDbSize ql dl s bf =
     real_of_int (wrap32 (wrap32 (seqDbSize * int ql) * int dl)) * 2 powr (real_of_int (- s) / bf)"

lemma wrap32_mult_left: "wrap32 (wrap32 a * b) = wrap32 (a * b)"
proof -
  have "(word_of_int (sint (word_of_int a :: i32) * b) :: i32) = word_of_int (a * b)"
    by (simp add: of_int_mult scast_id)
  then show ?thesis by (simp add: wrap32_def)
qed

lemma evalue_eq: "evalue n ql dl s bf = real_of_int (wrap32 (n * int ql * int dl)) * 2 powr (- s / bf)"
  by (simp add: evalue_def wrap32_mult_left)


lemma ratio_unit:
  fixes x :: int
  assumes "0 < l" and "0 \<le> x" and "x \<le> int l"
  shows "0 \<le> real_of_int x / real l \<and> real_of_int x / real l \<le> 1"
proof -
  have "real_of_int x \<le> real l" using assms(3) by (metis of_int_le_iff of_int_of_nat_eq)
  with assms show ?thesis by (simp add: divide_le_eq_1)
qed

lemma coverage_range:
  assumes "0 < l" and "uint s \<le> uint e" and "uint s \<le> int l"
  shows "\<exists>c. coverage l e s = Some c \<and> 0 \<le> c \<and> c \<le> 1"
proof -
  have s0: "0 \<le> uint s" by simp
  have "0 \<le> min (int l) (uint e) - uint s" using assms(2,3) by simp
  moreover have "min (int l) (uint e) - uint s \<le> int l"
    using min.cobounded1 [of "int l" "uint e"] s0 by linarith
  ultimately have "0 \<le> real_of_int (min (int l) (uint e) - uint s) / real l \<and>
      real_of_int (min (int l) (uint e) - uint s) / real l \<le> 1"
    by (rule ratio_unit [OF assms(1)])
  with assms(1) show ?thesis by (simp only: coverage_def) simp
qed

subsection \<open>Properties\<close>

text \<open>C19 (error). The e-value is the spec's \<open>dbSize * qL * dbL * 2^(-s / bitFactor)\<close>
  exactly when the product \<open>seqDbSize * query->L * dbSeq->L\<close> is below \<open>2^31\<close>: the code
  forms it in 32-bit \<open>int\<close>, so from \<open>2^31\<close> on it wraps and the reported e-value is
  wrong for every score (negative when the wrapped product is).\<close>

theorem evalue_int_overflow:
  assumes "0 \<le> seqDbSize"
  shows "evalue seqDbSize ql dl s bf = real_of_int (seqDbSize * int ql * int dl) * 2 powr (real_of_int (- s) / bf) \<longleftrightarrow>
         seqDbSize * int ql * int dl < 2 ^ 31"
proof -
  let ?p = "seqDbSize * int ql * int dl"
  define c where "c = (2 :: real) powr (real_of_int (- s) / bf)"
  have nn: "0 \<le> ?p" using assms by simp
  have c0: "c \<noteq> 0" by (simp add: c_def)
  have e: "evalue seqDbSize ql dl s bf = real_of_int (wrap32 ?p) * c"
    by (simp add: evalue_eq c_def)
  have "real_of_int (wrap32 ?p) * c = real_of_int ?p * c \<longleftrightarrow> wrap32 ?p = ?p"
    by (simp only: mult_cancel_right of_int_eq_iff c0 simp_thms)
  also have "\<dots> \<longleftrightarrow> ?p < 2 ^ 31" using nn by (simp add: wrap32_fixed_iff)
  finally show ?thesis unfolding e c_def .
qed

subsection \<open>Witnesses\<close>

theorem evalue_int_overflow_witness:
  "evalue 1000 100 100 20 2 = real_of_int (1000 * int 100 * int 100) * 2 powr (real_of_int (- 20) / 2) \<and>
   evalue 30000000 300 300 20 2 \<noteq> real_of_int (30000000 * int 300 * int 300) * 2 powr (real_of_int (- 20) / 2)"
proof -
  have a: "(1000 :: int) * int 100 * int 100 < 2 ^ 31" by simp
  have b: "\<not> (30000000 :: int) * int 300 * int 300 < 2 ^ 31" by simp
  show ?thesis
    using evalue_int_overflow [of 1000 100 100 20 2] evalue_int_overflow [of 30000000 300 300 20 2] a b
    by simp
qed

end
