(* ===== verification/Matcher.thy ===== *)
theory Matcher
  imports QueryProfile SmithWaterman Statistics
begin

text \<open>
  The alignment orchestrator \<open>Matcher\<close> (\<open>src/src/alignment/Matcher.cpp\<close>): the
  constructor (lines 3--15), which allocates the profile buffer once, and
  \<open>getSWResult\<close> (lines 22--66), which rebuilds the striped profile for the query, runs
  the forward kernel and the traceback over it, and computes coverage and e-value.
  The kernel \<open>smith_waterman_sse2_word\<close> and \<open>traceback_word\<close> are not part of these
  sources; they are modelled from the spec over the kernel of theory \<open>SmithWaterman\<close>,
  reading their scores from the profile buffer at the striped offsets.
\<close>

subsection \<open>Definitions\<close>

record matcher =
  mat :: base_matrix
  maxSeqLen :: nat
  queryProfileWord :: "u16 list"

text \<open>The constructor: \<open>memalign\<close> of \<open>alphabetSize * maxSeqLen\<close> unsigned shorts. The
  contents of fresh memory are unspecified; they are modelled as zeros (every entry a
  well-formed query needs is written before it is read). The allocations themselves (and
  the SIMD workspace) are modelled over an explicit heap in theory \<open>Lifecycle\<close>.\<close>

definition Matcher :: "base_matrix \<Rightarrow> nat \<Rightarrow> matcher" where
  "Matcher m mx = \<lparr>mat = m, maxSeqLen = mx, queryProfileWord = replicate (alphabetSize m * mx) 0\<rparr>"

text \<open>Offset of the profile lane the kernel reads for target code \<open>c\<close> and (1-based) query
  position \<open>i\<close>: block \<open>c\<close>, segment \<open>(i - 1) mod segLen\<close>, lane \<open>(i - 1) div segLen\<close>.\<close>

definition prof_index :: "nat \<Rightarrow> int \<Rightarrow> nat \<Rightarrow> nat" where
  "prof_index ql c i = nat c * segLen ql * 8 + ((i - 1) mod segLen ql) * 8 + (i - 1) div segLen ql"

text \<open>The score the kernel uses for query position \<open>i\<close> and target position \<open>j\<close>: the
  profile lane read back as a signed 16-bit value.\<close>

definition prof_score :: "u16 list \<Rightarrow> nat \<Rightarrow> int list \<Rightarrow> nat \<Rightarrow> nat \<Rightarrow> int" where
  "prof_score P ql dbs i j = sint (P ! prof_index ql (dbs ! (j - 1)) i)"

definition smith_waterman_sse2_word ::
  "u16 list \<Rightarrow> nat \<Rightarrow> int list \<Rightarrow> nat \<Rightarrow> int \<Rightarrow> int \<Rightarrow> int \<times> nat \<times> nat" where
  "smith_waterman_sse2_word P ql dbs dl go ge = sw_run True go ge (prof_score P ql dbs) ql dl"

text \<open>The traceback (spec 4.4): the same kernel over the prefixes ending at the end
  coordinates, both read backwards; the first cell in that scan reaching the best score
  gives the length of the aligned stretch, so the start positions (0-based, the first
  aligned residue) are the end positions minus those lengths.\<close>

definition traceback_word ::
  "u16 list \<Rightarrow> nat \<Rightarrow> int list \<Rightarrow> nat \<Rightarrow> nat \<Rightarrow> int \<Rightarrow> int \<Rightarrow> nat \<times> nat" where
  "traceback_word P ql dbs qe de go ge =
     (case sw_run True go ge (\<lambda>i j. prof_score P ql dbs (Suc qe - i) (Suc de - j)) qe de of
        (r, i, j) \<Rightarrow> (qe - i, de - j))"

record sw_result =
  res_dbKey :: string
  res_score :: int
  res_qcov :: "real option"
  res_dbcov :: "real option"
  res_evalue :: real

text \<open>\<open>getSWResult\<close>: gap open 10 and gap extend 1; the end and start coordinates pass
  through \<open>unsigned short\<close> variables; the profile buffer is the state the call leaves
  behind. The per-pair H, E, F matrices are allocated and freed inside the call; their contents
  are not modelled (the kernel model computes them column by column), and their
  allocation and release are modelled in theory \<open>Lifecycle\<close>.\<close>

definition getSWResult :: "matcher \<Rightarrow> sequence \<Rightarrow> sequence \<Rightarrow> int \<Rightarrow> prof_error + sw_result \<times> matcher" where
  "getSWResult mt q db seqDbSize =
     (let gap_open = 10; gap_extend = 1 in
      sbind (calcQueryProfileWord (mat mt) q (queryProfileWord mt)) (\<lambda>P.
        case smith_waterman_sse2_word P (L q) (int_sequence db) (L db) gap_open gap_extend of
          (s, qe, de) \<Rightarrow>
            (let qEndPos = (word_of_nat qe :: u16); dbEndPos = (word_of_nat de :: u16) in
             case traceback_word P (L q) (int_sequence db) (unat qEndPos) (unat dbEndPos) gap_open gap_extend of
               (qs, ds) \<Rightarrow>
                 (let qStartPos = (word_of_nat qs :: u16); dbStartPos = (word_of_nat ds :: u16) in
                  Inr (\<lparr>res_dbKey = c_string (dbKey db), res_score = s,
                        res_qcov = coverage (L q) qEndPos qStartPos,
                        res_dbcov = coverage (L db) dbEndPos dbStartPos,
                        res_evalue = evalue seqDbSize (L q) (L db) s (bitFactor (mat mt))\<rparr>,
                       mt\<lparr>queryProfileWord := P\<rparr>)))))"

subsection \<open>Reference scores\<close>

text \<open>The substitution score of query position \<open>i\<close> against target position \<open>j\<close>
  (1-based), 0 outside the two sequences.\<close>

definition pair_score :: "base_matrix \<Rightarrow> sequence \<Rightarrow> sequence \<Rightarrow> nat \<Rightarrow> nat \<Rightarrow> int" where
  "pair_score m q db i j =
     (if 1 \<le> i \<and> i \<le> L q \<and> 1 \<le> j \<and> j \<le> L db
      then subMatrix m ! nat (int_sequence q ! (i - 1)) ! nat (int_sequence db ! (j - 1)) else 0)"

definition pair_ok :: "matcher \<Rightarrow> sequence \<Rightarrow> sequence \<Rightarrow> bool" where
  "pair_ok mt q db \<longleftrightarrow> matrix_ok (mat mt) \<and>
     length (queryProfileWord mt) = alphabetSize (mat mt) * maxSeqLen mt \<and> 8 dvd maxSeqLen mt \<and>
     seq_wf q \<and> seq_wf db \<and> maxLen q \<le> maxSeqLen mt \<and>
     codes_valid (int (alphabetSize (mat mt))) q \<and> codes_valid (int (alphabetSize (mat mt))) db"


text \<open>Fixtures for the witnesses: nucleotide sequences encoded by \<open>mapSequence\<close> over
  \<open>acgtn\<close> in slots of capacity 16, and a matrix whose matches score 30000.\<close>

abbreviation nseq :: "string \<Rightarrow> sequence" where
  "nseq txt \<equiv> projr (mapSequence (nuc_seq 16) 1 ''s'' txt)"

definition big_matrix :: base_matrix where
  "big_matrix = nuc_matrix\<lparr>subMatrix := map (map (\<lambda>v. if v = 2 then 30000 else v)) (subMatrix nuc_matrix)\<rparr>"

subsection \<open>Reading the striped profile\<close>

lemma prof_index_split:
  fixes p sl a A :: nat
  assumes "p < sl * 8" and "a < A"
  shows "a * sl * 8 + (p mod sl) * 8 + p div sl < A * (sl * 8) \<and>
    (a * sl * 8 + (p mod sl) * 8 + p div sl) div (sl * 8) = a \<and>
    ((a * sl * 8 + (p mod sl) * 8 + p div sl) mod (sl * 8)) div 8 = p mod sl \<and>
    (a * sl * 8 + (p mod sl) * 8 + p div sl) mod 8 = p div sl"
proof -
  have sl: "0 < sl" using assms(1) by (cases sl) auto
  have d: "p div sl < 8" using assms(1) sl by (simp add: div_less_iff_less_mult)
  have md: "p mod sl < sl" using sl by simp
  let ?r = "(p mod sl) * 8 + p div sl"
  have r: "?r < sl * 8"
  proof -
    have "Suc (p mod sl) \<le> sl" using md by simp
    then have "Suc (p mod sl) * 8 \<le> sl * 8" by (rule mult_right_mono) simp
    with d show ?thesis by simp
  qed
  have t: "a * sl * 8 + (p mod sl) * 8 + p div sl = a * (sl * 8) + ?r" by (simp add: ac_simps)
  have "a * (sl * 8) + ?r < A * (sl * 8)"
  proof -
    have "Suc a * (sl * 8) \<le> A * (sl * 8)" using assms(2) by (intro mult_right_mono) simp_all
    with r show ?thesis by simp
  qed
  moreover have "(a * (sl * 8) + ?r) div (sl * 8) = a" using r by simp
  moreover have "(a * (sl * 8) + ?r) mod (sl * 8) = ?r" using r by simp
  moreover have "?r div 8 = p mod sl" "?r mod 8 = p div sl" using d by simp_all
  moreover have "(a * (sl * 8) + ?r) mod 8 = ?r mod 8" by (simp add: mod_mult_self3 mult.assoc [symmetric])
  ultimately show ?thesis unfolding t by simp
qed


lemma segLen_cover: "p < ql \<Longrightarrow> p < segLen ql * 8"
  by (simp add: segLen_def)

lemma sint_matrix_entry:
  assumes "matrix_ok m" and "0 \<le> x" "x < int (alphabetSize m)" and "0 \<le> c" "c < int (alphabetSize m)"
  shows "sint (word_of_int (subMatrix m ! nat x ! nat c) :: i16) = subMatrix m ! nat x ! nat c"
proof -
  have "score_at m x c = Some (subMatrix m ! nat x ! nat c)" using assms by (simp add: score_at_ok)
  from score_at_range [OF assms(1) this] show ?thesis by (simp add: sint16_of_int)
qed

lemma prof_score_profile:
  assumes m: "matrix_ok m" and q: "codes_valid (int (alphabetSize m)) q" "L q \<le> length (int_sequence q)"
    and P: "alphabetSize m * segLen (L q) * 8 \<le> length P"
    and c: "0 \<le> c" "c < int (alphabetSize m)" and i: "1 \<le> i" "i \<le> L q"
  shows "sint (profile_spec m q P ! prof_index (L q) c i) = subMatrix m ! nat (int_sequence q ! (i - 1)) ! nat c"
proof -
  let ?p = "i - 1" and ?sl = "segLen (L q)" and ?A = "alphabetSize m"
  have p: "?p < L q" using i by simp
  have a: "nat c < ?A" using c by simp
  note sp = prof_index_split [OF segLen_cover [OF p] a]
  have t: "prof_index (L q) c i = nat c * ?sl * 8 + (?p mod ?sl) * 8 + ?p div ?sl"
    by (simp add: prof_index_def)
  have tl: "prof_index (L q) c i < length P"
    using sp P unfolding t by (simp add: ac_simps)
  have j: "?p mod ?sl + ?p div ?sl * ?sl = ?p" by simp
  have x: "0 \<le> int_sequence q ! ?p" "int_sequence q ! ?p < int ?A" using q(1) p by (simp_all add: codes_valid_def)
  have "profile_spec m q P ! prof_index (L q) c i = profile_entry m q (nat c) (?p mod ?sl) (?p div ?sl)"
    using sp tl unfolding t by (simp add: profile_spec_def Let_def ac_simps)
  also have "\<dots> = word_of_int (subMatrix m ! nat (int_sequence q ! ?p) ! nat c)"
    using p j by (simp add: profile_entry_def Let_def)
  finally show ?thesis using sint_matrix_entry [OF m x c] by simp
qed


lemma pair_ok_profile:
  assumes "pair_ok mt q db"
  shows "calcQueryProfileWord (mat mt) q (queryProfileWord mt) =
           Inr (profile_spec (mat mt) q (queryProfileWord mt))"
    and "alphabetSize (mat mt) * segLen (L q) * 8 \<le> length (queryProfileWord mt)"
proof -
  have "L q < maxSeqLen mt \<or> L q = 0" and "8 dvd maxSeqLen mt"
    using assms by (auto simp: pair_ok_def seq_wf_def)
  then have "segLen (L q) * 8 \<le> maxSeqLen mt" by (rule segLen_fits)
  then show fit: "alphabetSize (mat mt) * segLen (L q) * 8 \<le> length (queryProfileWord mt)"
    using assms by (simp add: pair_ok_def mult.assoc)
  have "L q \<le> length (int_sequence q)" using assms by (auto simp: pair_ok_def seq_wf_def)
  with assms fit show "calcQueryProfileWord (mat mt) q (queryProfileWord mt) =
           Inr (profile_spec (mat mt) q (queryProfileWord mt))"
    by (intro calcQueryProfileWord_spec) (simp_all add: pair_ok_def)
qed

lemma length_profile_spec [simp]: "length (profile_spec m q P) = length P"
  by (simp add: profile_spec_def Let_def)

lemma prof_score_pair:
  assumes "pair_ok mt q db" and "1 \<le> i" "i \<le> L q" "1 \<le> j" "j \<le> L db"
  shows "prof_score (profile_spec (mat mt) q (queryProfileWord mt)) (L q) (int_sequence db) i j =
         pair_score (mat mt) q db i j"
proof -
  have c: "0 \<le> int_sequence db ! (j - 1)" "int_sequence db ! (j - 1) < int (alphabetSize (mat mt))"
    using assms by (simp_all add: pair_ok_def codes_valid_def)
  have q: "L q \<le> length (int_sequence q)" using assms(1) by (auto simp: pair_ok_def seq_wf_def)
  show ?thesis
    using prof_score_profile [OF _ _ q pair_ok_profile(2) [OF assms(1)] c assms(2,3)] assms
    by (simp add: prof_score_def pair_score_def pair_ok_def)
qed

lemma kernel_pair:
  assumes "pair_ok mt q db"
  shows "smith_waterman_sse2_word (profile_spec (mat mt) q (queryProfileWord mt)) (L q) (int_sequence db) (L db) go ge =
         sw_run True go ge (pair_score (mat mt) q db) (L q) (L db)"
  unfolding smith_waterman_sse2_word_def using prof_score_pair [OF assms]
  by (intro sw_run_cong) simp

lemma traceback_pair:
  assumes "pair_ok mt q db" and "qe \<le> L q" and "de \<le> L db"
  shows "traceback_word (profile_spec (mat mt) q (queryProfileWord mt)) (L q) (int_sequence db) qe de go ge =
         (case sw_run True go ge (\<lambda>i j. pair_score (mat mt) q db (Suc qe - i) (Suc de - j)) qe de of
            (r, i, j) \<Rightarrow> (qe - i, de - j))"
  unfolding traceback_word_def using prof_score_pair [OF assms(1)] assms(2,3)
  by (subst sw_run_cong) auto

lemma pair_score_out:
  "\<not> (1 \<le> i \<and> i \<le> L q \<and> 1 \<le> j \<and> j \<le> L db) \<Longrightarrow> pair_score m q db i j = 0"
  unfolding pair_score_def by (rule if_not_P)

lemma scores16_pair:
  assumes "matrix_ok m" and "codes_valid (int (alphabetSize m)) q" and "codes_valid (int (alphabetSize m)) db"
  shows "scores16 (pair_score m q db)"
  unfolding scores16_def
proof (intro allI)
  fix i j
  show "-32768 \<le> pair_score m q db i j \<and> pair_score m q db i j \<le> 32767"
  proof (cases "1 \<le> i \<and> i \<le> L q \<and> 1 \<le> j \<and> j \<le> L db")
    case True
    let ?x = "int_sequence q ! (i - 1)" and ?c = "int_sequence db ! (j - 1)"
    have ii: "i - 1 < L q" "j - 1 < L db" using True by auto
    have "0 \<le> ?x" "?x < int (alphabetSize m)" "0 \<le> ?c" "?c < int (alphabetSize m)"
      using assms(2,3) ii unfolding codes_valid_def by blast+
    then have "score_at m ?x ?c = Some (subMatrix m ! nat ?x ! nat ?c)"
      using assms(1) by (simp add: score_at_ok)
    from score_at_range [OF assms(1) this] True show ?thesis by (simp add: pair_score_def)
  next
    case False
    then show ?thesis using pair_score_out [OF False] by simp
  qed
qed


lemma unat_word_of_nat_le: "unat (word_of_nat n :: u16) \<le> n"
  by (simp add: unat_of_nat)

text \<open>\<open>getSWResult\<close> on a well-formed pair: the kernel and the traceback run on the
  substitution scores of the pair (the traceback over the reversed prefixes ending at
  the end coordinates, as they come back from the \<open>unsigned short\<close> variables).\<close>

lemma getSWResult_traceback:
  assumes ok: "pair_ok mt q db"
    and k: "sw_run True 10 1 (pair_score (mat mt) q db) (L q) (L db) = (s, qe, de)"
    and t: "sw_run True 10 1 (\<lambda>i j. pair_score (mat mt) q db (Suc (unat (word_of_nat qe :: u16)) - i)
              (Suc (unat (word_of_nat de :: u16)) - j)) (unat (word_of_nat qe :: u16)) (unat (word_of_nat de :: u16)) = (r, i, j)"
  shows "getSWResult mt q db n =
      Inr (\<lparr>res_dbKey = c_string (dbKey db), res_score = s,
            res_qcov = coverage (L q) (word_of_nat qe) (word_of_nat (unat (word_of_nat qe :: u16) - i)),
            res_dbcov = coverage (L db) (word_of_nat de) (word_of_nat (unat (word_of_nat de :: u16) - j)),
            res_evalue = evalue n (L q) (L db) s (bitFactor (mat mt))\<rparr>,
           mt\<lparr>queryProfileWord := profile_spec (mat mt) q (queryProfileWord mt)\<rparr>)"
proof -
  let ?P = "profile_spec (mat mt) q (queryProfileWord mt)"
  have qe: "qe \<le> L q" and de: "de \<le> L db"
    using sw_run_pos [of True 10 1 "pair_score (mat mt) q db" "L q" "L db"] k by simp_all
  let ?qe = "unat (word_of_nat qe :: u16)" and ?de = "unat (word_of_nat de :: u16)"
  have qe': "?qe \<le> L q" and de': "?de \<le> L db"
    using qe de unat_word_of_nat_le [of qe] unat_word_of_nat_le [of de] by linarith+
  have tb: "traceback_word ?P (L q) (int_sequence db) ?qe ?de 10 1 = (?qe - i, ?de - j)"
    using traceback_pair [OF ok qe' de', of 10 1] t by simp
  have kw: "smith_waterman_sse2_word ?P (L q) (int_sequence db) (L db) 10 1 = (s, qe, de)"
    using kernel_pair [OF ok, of 10 1] k by simp
  show ?thesis by (simp add: getSWResult_def pair_ok_profile(1) [OF ok] kw tb Let_def)
qed

lemma getSWResult_shape:
  assumes ok: "pair_ok mt q db"
  shows "\<exists>s qe de qs ds. sw_run True 10 1 (pair_score (mat mt) q db) (L q) (L db) = (s, qe, de) \<and>
    qe \<le> L q \<and> de \<le> L db \<and> qs \<le> unat (word_of_nat qe :: u16) \<and> ds \<le> unat (word_of_nat de :: u16) \<and>
    getSWResult mt q db n =
      Inr (\<lparr>res_dbKey = c_string (dbKey db), res_score = s,
            res_qcov = coverage (L q) (word_of_nat qe) (word_of_nat qs),
            res_dbcov = coverage (L db) (word_of_nat de) (word_of_nat ds),
            res_evalue = evalue n (L q) (L db) s (bitFactor (mat mt))\<rparr>,
           mt\<lparr>queryProfileWord := profile_spec (mat mt) q (queryProfileWord mt)\<rparr>)"
proof -
  obtain s qe de where k: "sw_run True 10 1 (pair_score (mat mt) q db) (L q) (L db) = (s, qe, de)"
    by (metis prod.exhaust)
  have qe: "qe \<le> L q" and de: "de \<le> L db"
    using sw_run_pos [of True 10 1 "pair_score (mat mt) q db" "L q" "L db"] k by simp_all
  let ?qe = "unat (word_of_nat qe :: u16)" and ?de = "unat (word_of_nat de :: u16)"
  obtain r i j where t: "sw_run True 10 1 (\<lambda>i j. pair_score (mat mt) q db (Suc ?qe - i) (Suc ?de - j)) ?qe ?de = (r, i, j)"
    by (metis prod.exhaust)
  have "?qe - i \<le> ?qe" "?de - j \<le> ?de" by simp_all
  then show ?thesis using getSWResult_traceback [OF ok k t, of n] k qe de by blast
qed


lemma getSWResult_Inr_score:
  assumes "getSWResult mt q db n = Inr (r, mt')"
  shows "\<exists>P. res_score r = fst (smith_waterman_sse2_word P (L q) (int_sequence db) (L db) 10 1)"
proof -
  obtain P where P: "calcQueryProfileWord (mat mt) q (queryProfileWord mt) = Inr P"
    using assms by (cases "calcQueryProfileWord (mat mt) q (queryProfileWord mt)") (simp_all add: getSWResult_def)
  obtain s qe de where k: "smith_waterman_sse2_word P (L q) (int_sequence db) (L db) 10 1 = (s, qe, de)"
    by (metis prod.exhaust)
  obtain qs ds where t: "traceback_word P (L q) (int_sequence db) (unat (word_of_nat qe :: u16))
      (unat (word_of_nat de :: u16)) 10 1 = (qs, ds)"
    by (metis prod.exhaust)
  from assms have "res_score r = s" by (auto simp: getSWResult_def P k t Let_def)
  with k have "res_score r = fst (smith_waterman_sse2_word P (L q) (int_sequence db) (L db) 10 1)" by simp
  then show ?thesis ..
qed

lemma u16_small:
  assumes "n < 65536"
  shows "unat (word_of_nat n :: u16) = n" and "uint (word_of_nat n :: u16) = int n"
proof -
  show u: "unat (word_of_nat n :: u16) = n" using assms by (simp add: unat_of_nat)
  show "uint (word_of_nat n :: u16) = int n" by (simp add: uint_nat u)
qed

lemma pair_score_diag:
  assumes "L db = L q" and "take (L q) (int_sequence db) = take (L q) (int_sequence q)"
  shows "sum_list (map (\<lambda>l. pair_score m q db l l) [1..<Suc (L q)]) =
         sum_list (map (\<lambda>k. subMatrix m ! nat (int_sequence q ! k) ! nat (int_sequence q ! k)) [0..<L q])"
proof -
  have "map (\<lambda>l. pair_score m q db l l) [1..<Suc (L q)] =
        map (\<lambda>k. pair_score m q db (Suc k) (Suc k)) [0..<L q]"
    by (simp add: map_Suc_upt [symmetric] comp_def del: upt_Suc)
  also have "\<dots> = map (\<lambda>k. subMatrix m ! nat (int_sequence q ! k) ! nat (int_sequence q ! k)) [0..<L q]"
  proof (rule map_cong [OF refl])
    fix k assume "k \<in> set [0..<L q]"
    then have k: "k < L q" by simp
    then have "int_sequence db ! k = int_sequence q ! k"
      using assms(2) by (metis nth_take)
    with k assms(1) show "pair_score m q db (Suc k) (Suc k) =
        subMatrix m ! nat (int_sequence q ! k) ! nat (int_sequence q ! k)"
      by (simp add: pair_score_def)
  qed
  finally show ?thesis by simp
qed

subsection \<open>Properties\<close>

text \<open>C1 (refinement). End to end, \<open>getSWResult\<close> computes the Smith-Waterman score of
  the spec: for a well-formed matcher (profile buffer of \<open>alphabetSize * maxSeqLen\<close>
  entries, \<open>maxSeqLen\<close> a multiple of 8), well-formed query and target whose codes index
  the alphabet and a query of capacity at most \<open>maxSeqLen\<close>, the call succeeds and,
  when the best local score under gap open 10 and gap extend 1 fits in 16 bits, reports
  exactly that score.\<close>

theorem getSWResult_score:
  assumes "pair_ok mt q db" and "fst (sw_spec (pair_score (mat mt) q db) 10 1 (L q) (L db)) \<le> 32767"
  shows "\<exists>r mt'. getSWResult mt q db n = Inr (r, mt') \<and>
           res_score r = fst (sw_spec (pair_score (mat mt) q db) 10 1 (L q) (L db))"
proof -
  have p: "word_params 10 1" by (simp add: word_params_def)
  have s16: "scores16 (pair_score (mat mt) q db)"
    using assms(1) by (intro scores16_pair) (simp_all add: pair_ok_def)
  from getSWResult_shape [OF assms(1), of n] sw_run_sat_exact [OF p s16 assms(2)] show ?thesis
    by auto
qed

text \<open>C18 (error). A score at or above the 16-bit ceiling is clamped, neither wrapped
  around nor reported as an error: when the best local score of a well-formed pair is
  at least 32767 the call still succeeds and reports exactly 32767 (the open question of
  spec section 9).\<close>

theorem getSWResult_saturates:
  assumes "pair_ok mt q db" and "32767 \<le> fst (sw_spec (pair_score (mat mt) q db) 10 1 (L q) (L db))"
  shows "\<exists>r mt'. getSWResult mt q db n = Inr (r, mt') \<and> res_score r = 32767"
proof -
  have p: "word_params 10 1" by (simp add: word_params_def)
  have s16: "scores16 (pair_score (mat mt) q db)"
    using assms(1) by (intro scores16_pair) (simp_all add: pair_ok_def)
  from getSWResult_shape [OF assms(1), of n] sw_run_sat_ceiling [OF p s16 assms(2)] show ?thesis
    by auto
qed

text \<open>C17 (functional). The result does not depend on what the profile buffer held
  before the call: the profile is rebuilt from the query on every call, so a matcher
  whose buffer holds anything else (the profile of an earlier query, or garbage)
  returns the same result.\<close>

theorem getSWResult_profile_independent:
  assumes ok: "pair_ok mt q db" and len: "length P' = length (queryProfileWord mt)"
  shows "\<exists>r mt1 mt2. getSWResult mt q db n = Inr (r, mt1) \<and>
           getSWResult (mt\<lparr>queryProfileWord := P'\<rparr>) q db n = Inr (r, mt2)"
proof -
  have ok': "pair_ok (mt\<lparr>queryProfileWord := P'\<rparr>) q db" using ok len by (simp add: pair_ok_def)
  obtain s qe de where k: "sw_run True 10 1 (pair_score (mat mt) q db) (L q) (L db) = (s, qe, de)"
    by (metis prod.exhaust)
  let ?qe = "unat (word_of_nat qe :: u16)" and ?de = "unat (word_of_nat de :: u16)"
  obtain r i j where t: "sw_run True 10 1 (\<lambda>i j. pair_score (mat mt) q db (Suc ?qe - i) (Suc ?de - j)) ?qe ?de = (r, i, j)"
    by (metis prod.exhaust)
  from getSWResult_traceback [OF ok k t, of n] getSWResult_traceback [OF ok', of s qe de r i j n] k t
  show ?thesis by simp
qed

text \<open>C20 (functional). Scenario B of the spec: when no residue of the query scores
  positively against any residue of the target, the call reports score 0, the
  local-alignment floor, and coverage 0 on both sides.\<close>

theorem getSWResult_no_positive_pair:
  assumes "pair_ok mt q db" and "0 < L q" and "0 < L db"
    and "\<forall>k < L q. \<forall>l < L db. subMatrix (mat mt) ! nat (int_sequence q ! k) ! nat (int_sequence db ! l) \<le> 0"
  shows "\<exists>mt'. getSWResult mt q db n =
           Inr (\<lparr>res_dbKey = c_string (dbKey db), res_score = 0, res_qcov = Some 0, res_dbcov = Some 0,
                 res_evalue = evalue n (L q) (L db) 0 (bitFactor (mat mt))\<rparr>, mt')"
proof -
  have p: "word_params 10 1" by (simp add: word_params_def)
  have s16: "scores16 (pair_score (mat mt) q db)"
    using assms(1) by (intro scores16_pair) (simp_all add: pair_ok_def)
  have np: "\<forall>i j. pair_score (mat mt) q db i j \<le> 0"
  proof (intro allI)
    fix i j
    show "pair_score (mat mt) q db i j \<le> 0"
    proof (cases "1 \<le> i \<and> i \<le> L q \<and> 1 \<le> j \<and> j \<le> L db")
      case True
      then have "i - 1 < L q" "j - 1 < L db" by auto
      with assms(4) True show ?thesis by (simp add: pair_score_def)
    next
      case False
      then show ?thesis using pair_score_out [OF False] by simp
    qed
  qed
  have k: "sw_run True 10 1 (pair_score (mat mt) q db) (L q) (L db) = (0, 0, 0)"
    by (rule sw_word_nonpositive [OF p s16 np])
  have c: "coverage l 0 0 = Some 0" if "0 < l" for l using that by (simp add: coverage_def)
  from getSWResult_shape [OF assms(1), of n] k assms(2,3) show ?thesis
    by (auto simp: c)
qed

text \<open>C21 (functional). The spec's self-alignment property: aligning a sequence against
  an identical copy scores at least the sum of the diagonal self-substitution scores
  (when the best score fits in 16 bits).\<close>

theorem getSWResult_self_alignment:
  assumes "pair_ok mt q db" and "L db = L q" and "take (L q) (int_sequence db) = take (L q) (int_sequence q)"
    and "0 < L q" and "fst (sw_spec (pair_score (mat mt) q db) 10 1 (L q) (L db)) \<le> 32767"
  shows "\<exists>r mt'. getSWResult mt q db n = Inr (r, mt') \<and>
    sum_list (map (\<lambda>k. subMatrix (mat mt) ! nat (int_sequence q ! k) ! nat (int_sequence q ! k)) [0..<L q])
      \<le> res_score r"
proof -
  have p: "word_params 10 1" by (simp add: word_params_def)
  have s16: "scores16 (pair_score (mat mt) q db)"
    using assms(1) by (intro scores16_pair) (simp_all add: pair_ok_def)
  have "sum_list (map (\<lambda>l. pair_score (mat mt) q db l l) [1..<Suc (L q)]) \<le>
        fst (sw_run True 10 1 (pair_score (mat mt) q db) (L q) (L db))"
    using assms(2,4) by (intro sw_word_diagonal_bound [OF p s16 assms(5)]) simp_all
  with getSWResult_shape [OF assms(1), of n] pair_score_diag [OF assms(2,3)] show ?thesis
    by auto
qed

text \<open>C22 (bounds). For sequences shorter than 65536 residues, so that the coordinates
  survive the \<open>unsigned short\<close> variables, both coverages are defined and lie in
  \<open>[0, 1]\<close>.\<close>

theorem getSWResult_coverage:
  assumes "pair_ok mt q db" and "0 < L q" "L q < 65536" and "0 < L db" "L db < 65536"
  shows "\<exists>r mt' c d. getSWResult mt q db n = Inr (r, mt') \<and>
    res_qcov r = Some c \<and> 0 \<le> c \<and> c \<le> 1 \<and> res_dbcov r = Some d \<and> 0 \<le> d \<and> d \<le> 1"
proof -
  obtain s qe de qs ds where k: "sw_run True 10 1 (pair_score (mat mt) q db) (L q) (L db) = (s, qe, de)"
    and b: "qe \<le> L q" "de \<le> L db" "qs \<le> unat (word_of_nat qe :: u16)" "ds \<le> unat (word_of_nat de :: u16)"
    and g: "getSWResult mt q db n =
      Inr (\<lparr>res_dbKey = c_string (dbKey db), res_score = s,
            res_qcov = coverage (L q) (word_of_nat qe) (word_of_nat qs),
            res_dbcov = coverage (L db) (word_of_nat de) (word_of_nat ds),
            res_evalue = evalue n (L q) (L db) s (bitFactor (mat mt))\<rparr>,
           mt\<lparr>queryProfileWord := profile_spec (mat mt) q (queryProfileWord mt)\<rparr>)"
    using getSWResult_shape [OF assms(1), of n] by blast
  have qe: "qe < 65536" "de < 65536" using b(1,2) assms(3,5) by simp_all
  then have qs: "qs \<le> qe" "ds \<le> de" "qs < 65536" "ds < 65536" using b(3,4) u16_small(1) by fastforce+
  have "\<exists>c. coverage (L q) (word_of_nat qe) (word_of_nat qs) = Some c \<and> 0 \<le> c \<and> c \<le> 1"
    using qs qe b(1) assms(2) by (intro coverage_range) (simp_all add: u16_small)
  moreover have "\<exists>d. coverage (L db) (word_of_nat de) (word_of_nat ds) = Some d \<and> 0 \<le> d \<and> d \<le> 1"
    using qs qe b(2) assms(4) by (intro coverage_range) (simp_all add: u16_small)
  ultimately show ?thesis using g by auto
qed


subsection \<open>Witnesses\<close>

lemma wit_ok: "pair_ok (Matcher nuc_matrix 16) (nseq ''acgta'') (nseq ''cgt'')"
  by code_simp

lemma wit_spec: "fst (sw_spec (pair_score nuc_matrix (nseq ''acgta'') (nseq ''cgt'')) 10 1 5 3) = 6"
  unfolding sw_run_false_spec [symmetric] by code_simp

lemma wit_len: "L (nseq ''acgta'') = 5" "L (nseq ''cgt'') = 3"
  by code_simp+

theorem getSWResult_score_witness:
  "\<exists>r mt'. getSWResult (Matcher nuc_matrix 16) (nseq ''acgta'') (nseq ''cgt'') 100 = Inr (r, mt') \<and>
     res_score r = 6"
proof -
  have t: "fst (sw_spec (pair_score (mat (Matcher nuc_matrix 16)) (nseq ''acgta'') (nseq ''cgt'')) 10 1
      (L (nseq ''acgta'')) (L (nseq ''cgt''))) \<le> 32767"
    by (simp add: Matcher_def wit_len wit_spec)
  from getSWResult_score [OF wit_ok t, of 100] show ?thesis
    by (simp add: Matcher_def wit_len wit_spec)
qed


theorem getSWResult_saturates_witness:
  "\<exists>r mt'. getSWResult (Matcher big_matrix 16) (nseq ''aa'') (nseq ''aa'') 100 = Inr (r, mt') \<and>
     res_score r = 32767"
proof -
  have ok: "pair_ok (Matcher big_matrix 16) (nseq ''aa'') (nseq ''aa'')" by code_simp
  have sp: "fst (sw_spec (pair_score big_matrix (nseq ''aa'') (nseq ''aa'')) 10 1 2 2) = 60000"
    unfolding sw_run_false_spec [symmetric] by code_simp
  have l: "L (nseq ''aa'') = 2" by code_simp
  have "32767 \<le> fst (sw_spec (pair_score (mat (Matcher big_matrix 16)) (nseq ''aa'') (nseq ''aa'')) 10 1
      (L (nseq ''aa'')) (L (nseq ''aa'')))"
    by (simp add: Matcher_def l sp)
  from getSWResult_saturates [OF ok this, of 100] show ?thesis .
qed

theorem getSWResult_profile_independent_witness:
  "\<exists>r mt1 mt2. getSWResult (Matcher nuc_matrix 16) (nseq ''acgta'') (nseq ''cgt'') 100 = Inr (r, mt1) \<and>
     getSWResult ((Matcher nuc_matrix 16)\<lparr>queryProfileWord := replicate 80 7\<rparr>) (nseq ''acgta'') (nseq ''cgt'') 100 =
       Inr (r, mt2)"
proof -
  have "length (replicate 80 (7 :: u16)) = length (queryProfileWord (Matcher nuc_matrix 16))" by code_simp
  from getSWResult_profile_independent [OF wit_ok this, of 100] show ?thesis .
qed

theorem getSWResult_no_positive_pair_witness:
  "\<exists>mt'. getSWResult (Matcher nuc_matrix 16) (nseq ''aaaaa'') (nseq ''ccc'') 100 =
     Inr (\<lparr>res_dbKey = ''s'', res_score = 0, res_qcov = Some 0, res_dbcov = Some 0,
           res_evalue = evalue 100 5 3 0 2\<rparr>, mt')"
proof -
  have ok: "pair_ok (Matcher nuc_matrix 16) (nseq ''aaaaa'') (nseq ''ccc'')" by code_simp
  have l: "L (nseq ''aaaaa'') = 5" "L (nseq ''ccc'') = 3" "c_string (dbKey (nseq ''ccc'')) = ''s''" by code_simp+
  have b: "bitFactor (mat (Matcher nuc_matrix 16)) = 2" by (simp add: Matcher_def nuc_matrix_def)
  have np: "\<forall>k < L (nseq ''aaaaa''). \<forall>l < L (nseq ''ccc'').
      subMatrix (mat (Matcher nuc_matrix 16)) ! nat (int_sequence (nseq ''aaaaa'') ! k) !
        nat (int_sequence (nseq ''ccc'') ! l) \<le> 0"
    by code_simp
  from getSWResult_no_positive_pair [OF ok _ _ np, of 100] show ?thesis by (simp add: l b)
qed

theorem getSWResult_self_alignment_witness:
  "\<exists>r mt'. getSWResult (Matcher nuc_matrix 16) (nseq ''acgta'') (nseq ''acgta'') 100 = Inr (r, mt') \<and>
     10 \<le> res_score r"
proof -
  have ok: "pair_ok (Matcher nuc_matrix 16) (nseq ''acgta'') (nseq ''acgta'')" by code_simp
  have sp: "fst (sw_spec (pair_score nuc_matrix (nseq ''acgta'') (nseq ''acgta'')) 10 1 5 5) = 10"
    unfolding sw_run_false_spec [symmetric] by code_simp
  have d: "sum_list (map (\<lambda>k. subMatrix nuc_matrix ! nat (int_sequence (nseq ''acgta'') ! k) !
      nat (int_sequence (nseq ''acgta'') ! k)) [0..<5]) = 10" by code_simp
  have t: "fst (sw_spec (pair_score (mat (Matcher nuc_matrix 16)) (nseq ''acgta'') (nseq ''acgta'')) 10 1
      (L (nseq ''acgta'')) (L (nseq ''acgta''))) \<le> 32767"
    by (simp add: Matcher_def wit_len sp)
  from getSWResult_self_alignment [OF ok refl refl _ t, of 100] show ?thesis
    by (simp add: Matcher_def wit_len d)
qed

theorem getSWResult_coverage_witness:
  "\<exists>r mt' c d. getSWResult (Matcher nuc_matrix 16) (nseq ''acgta'') (nseq ''cgt'') 100 = Inr (r, mt') \<and>
    res_qcov r = Some c \<and> 0 \<le> c \<and> c \<le> 1 \<and> res_dbcov r = Some d \<and> 0 \<le> d \<and> d \<le> 1"
  using getSWResult_coverage [OF wit_ok] by (simp add: wit_len)

end
