(* ===== verification/Traceback.thy ===== *)
theory Traceback
  imports Matcher
begin

text \<open>
  What the forward pass and the traceback compute, in terms of alignments. An
  alignment is a start cell and a list of columns: a match column consumes one query
  and one target residue and scores their substitution score; a gap column consumes one
  residue of one sequence and costs the gap-open penalty when it starts a run of that
  kind of gap, the gap-extend penalty otherwise. The recurrence \<open>hef\<close> of theory
  \<open>SmithWaterman\<close> gives in H the best score of an alignment ending at a cell (or 0).
  Reversing both sequences reverses alignments and keeps their scores, which is what
  the traceback (spec 4.4) relies on: run over the reversed prefixes ending at the
  forward pass's end cell, it finds where an optimal alignment ending at that cell
  starts.
\<close>

datatype aop = AM | AE | AF

text \<open>Cell reached from \<open>(i, j)\<close> by a list of columns (\<open>AE\<close>: gap in the query,
  consuming a target residue; \<open>AF\<close>: gap in the target, consuming a query residue).\<close>

primrec aln_end :: "nat \<Rightarrow> nat \<Rightarrow> aop list \<Rightarrow> nat \<times> nat" where
  "aln_end i j [] = (i, j)"
| "aln_end i j (x # xs) =
     (case x of AM \<Rightarrow> aln_end (Suc i) (Suc j) xs | AE \<Rightarrow> aln_end i (Suc j) xs | AF \<Rightarrow> aln_end (Suc i) j xs)"

primrec match_sum :: "(nat \<Rightarrow> nat \<Rightarrow> int) \<Rightarrow> nat \<Rightarrow> nat \<Rightarrow> aop list \<Rightarrow> int" where
  "match_sum sc i j [] = 0"
| "match_sum sc i j (x # xs) =
     (case x of AM \<Rightarrow> sc (Suc i) (Suc j) + match_sum sc (Suc i) (Suc j) xs
      | AE \<Rightarrow> match_sum sc i (Suc j) xs | AF \<Rightarrow> match_sum sc (Suc i) j xs)"

text \<open>Adjacent gap columns of the same kind: each one turns a gap-open cost into a
  gap-extend cost.\<close>

fun ext_pairs :: "aop list \<Rightarrow> nat" where
  "ext_pairs (x # y # xs) = (if x = y \<and> x \<noteq> AM then 1 else 0) + ext_pairs (y # xs)"
| "ext_pairs xs = 0"

definition gaps :: "aop list \<Rightarrow> nat" where
  "gaps xs = length (filter (\<lambda>x. x \<noteq> AM) xs)"

definition aln_score :: "(nat \<Rightarrow> nat \<Rightarrow> int) \<Rightarrow> int \<Rightarrow> int \<Rightarrow> nat \<Rightarrow> nat \<Rightarrow> aop list \<Rightarrow> int" where
  "aln_score sc go ge i j xs = match_sum sc i j xs - go * int (gaps xs) + (go - ge) * int (ext_pairs xs)"

subsection \<open>Columns appended at the end\<close>

lemma aln_end_eq:
  "aln_end i j xs = (i + length (filter (\<lambda>x. x \<noteq> AE) xs), j + length (filter (\<lambda>x. x \<noteq> AF) xs))"
  by (induction xs arbitrary: i j) (auto split: aop.split)

lemma aln_end_snoc:
  "aln_end i j (xs @ [x]) =
     (case aln_end i j xs of (a, b) \<Rightarrow> (case x of AM \<Rightarrow> (Suc a, Suc b) | AE \<Rightarrow> (a, Suc b) | AF \<Rightarrow> (Suc a, b)))"
  by (simp add: aln_end_eq split: aop.split)

lemma match_sum_snoc:
  "match_sum sc i j (xs @ [x]) =
     match_sum sc i j xs + (if x = AM then sc (Suc (fst (aln_end i j xs))) (Suc (snd (aln_end i j xs))) else 0)"
  by (induction xs arbitrary: i j) (auto split: aop.split)

lemma ext_pairs_snoc:
  "ext_pairs (xs @ [x]) = ext_pairs xs + (if xs \<noteq> [] \<and> last xs = x \<and> x \<noteq> AM then 1 else 0)"
  by (induction xs rule: ext_pairs.induct) auto

lemma aln_score_snoc:
  "aln_score sc go ge i j (xs @ [x]) = aln_score sc go ge i j xs +
     (if x = AM then sc (Suc (fst (aln_end i j xs))) (Suc (snd (aln_end i j xs)))
      else if xs \<noteq> [] \<and> last xs = x then - ge else - go)"
  by (auto simp: aln_score_def match_sum_snoc ext_pairs_snoc gaps_def algebra_simps)

lemma aln_score_Nil [simp]: "aln_score sc go ge i j [] = 0"
  by (simp add: aln_score_def gaps_def)

text \<open>Without a match column an alignment scores at most 0.\<close>

lemma ext_pairs_le_gaps: "ext_pairs xs \<le> gaps xs"
  by (induction xs rule: ext_pairs.induct) (auto simp: gaps_def)

lemma match_sum_no_AM: "AM \<notin> set xs \<Longrightarrow> match_sum sc i j xs = 0"
  by (induction xs arbitrary: i j) (auto split: aop.split)

lemma aln_score_no_AM:
  assumes "AM \<notin> set xs" "0 \<le> ge" "ge \<le> go"
  shows "aln_score sc go ge i j xs \<le> 0"
proof -
  have e: "int (ext_pairs xs) \<le> int (gaps xs)" using ext_pairs_le_gaps by simp
  have "(go - ge) * int (ext_pairs xs) \<le> go * int (ext_pairs xs)"
    using assms(2) by (intro mult_right_mono) simp_all
  also have "\<dots> \<le> go * int (gaps xs)" using e assms(2,3) by (intro mult_left_mono) simp_all
  finally have "(go - ge) * int (ext_pairs xs) \<le> go * int (gaps xs)" .
  then show ?thesis using assms(1) by (simp add: aln_score_def match_sum_no_AM)
qed

subsection \<open>The recurrence bounds every alignment\<close>

lemma hef_nonneg: "0 \<le> fst (hef sc go ge i j)"
  by (cases "(sc, go, ge, i, j)" rule: hef.cases) (simp_all add: hef_Suc_Suc Let_def)

lemma hef_Suc_Suc_ge:
  "fst (hef sc go ge i j) + sc (Suc i) (Suc j) \<le> fst (hef sc go ge (Suc i) (Suc j))"
  "fst (snd (hef sc go ge (Suc i) (Suc j))) \<le> fst (hef sc go ge (Suc i) (Suc j))"
  "snd (snd (hef sc go ge (Suc i) (Suc j))) \<le> fst (hef sc go ge (Suc i) (Suc j))"
  "fst (hef sc go ge (Suc i) j) - go \<le> fst (snd (hef sc go ge (Suc i) (Suc j)))"
  "fst (snd (hef sc go ge (Suc i) j)) - ge \<le> fst (snd (hef sc go ge (Suc i) (Suc j)))"
  "fst (hef sc go ge i (Suc j)) - go \<le> snd (snd (hef sc go ge (Suc i) (Suc j)))"
  "snd (snd (hef sc go ge i (Suc j))) - ge \<le> snd (snd (hef sc go ge (Suc i) (Suc j)))"
  by (simp_all add: hef_Suc_Suc Let_def le_max_iff_disj)

lemma hef_border: "i = 0 \<or> j = 0 \<Longrightarrow> hef sc go ge i j = (0, 0, 0)"
  by (cases i) auto

text \<open>An alignment ending on row 0 or column 0 has no match column.\<close>

lemma aln_end_border:
  assumes "aln_end i0 j0 xs = (i, j)" and "i = 0 \<or> j = 0"
  shows "AM \<notin> set xs"
proof
  assume "AM \<in> set xs"
  then have "0 < length (filter (\<lambda>x. x \<noteq> AE) xs)" "0 < length (filter (\<lambda>x. x \<noteq> AF) xs)"
    by (auto simp: length_filter_conv_card card_gt_0_iff in_set_conv_nth)
  with assms show False by (auto simp: aln_end_eq)
qed

lemma hef_lower:
  assumes "0 \<le> ge" "ge \<le> go"
  shows "aln_end i0 j0 xs = (i, j) \<Longrightarrow>
    aln_score sc go ge i0 j0 xs \<le> fst (hef sc go ge i j) \<and>
    (xs \<noteq> [] \<and> last xs = AE \<longrightarrow> aln_score sc go ge i0 j0 xs \<le> fst (snd (hef sc go ge i j))) \<and>
    (xs \<noteq> [] \<and> last xs = AF \<longrightarrow> aln_score sc go ge i0 j0 xs \<le> snd (snd (hef sc go ge i j)))"
proof (induction xs arbitrary: i j rule: rev_induct)
  case Nil
  then show ?case using hef_nonneg by simp
next
  case (snoc x xs)
  let ?s = "aln_score sc go ge i0 j0"
  obtain a b where ab: "aln_end i0 j0 xs = (a, b)" by fastforce
  note IH = snoc.IH [OF ab]
  show ?case
  proof (cases "i = 0 \<or> j = 0")
    case True
    have "?s (xs @ [x]) \<le> 0"
      using aln_score_no_AM [OF aln_end_border [OF snoc.prems True] assms] .
    then show ?thesis using hef_border [OF True, of sc go ge] by auto
  next
    case False
    then obtain i' j' where ij: "i = Suc i'" "j = Suc j'" by (metis not0_implies_Suc)
    show ?thesis
    proof (cases x)
      case AM
      then have "a = i'" "b = j'" using snoc.prems ab ij by (simp_all add: aln_end_snoc)
      then have "?s (xs @ [x]) \<le> fst (hef sc go ge i' j') + sc i j"
        using IH AM ab ij by (simp add: aln_score_snoc)
      then show ?thesis using hef_Suc_Suc_ge(1) [of sc go ge i' j'] AM ij by simp
    next
      case AE
      then have a: "a = i" "b = j'" using snoc.prems ab ij by (simp_all add: aln_end_snoc)
      have "?s (xs @ [x]) \<le> fst (snd (hef sc go ge i j))"
      proof (cases "xs \<noteq> [] \<and> last xs = AE")
        case True
        then have "?s (xs @ [x]) = ?s xs - ge" using AE by (simp add: aln_score_snoc)
        also have "\<dots> \<le> fst (snd (hef sc go ge i j')) - ge" using IH True a by simp
        also have "\<dots> \<le> fst (snd (hef sc go ge i j))" using hef_Suc_Suc_ge(5) [of sc go ge i' j'] ij by simp
        finally show ?thesis .
      next
        case False
        then have "?s (xs @ [x]) = ?s xs - go" using AE by (auto simp: aln_score_snoc)
        also have "\<dots> \<le> fst (hef sc go ge i j') - go" using IH a by simp
        also have "\<dots> \<le> fst (snd (hef sc go ge i j))" using hef_Suc_Suc_ge(4) [of sc go ge i' j'] ij by simp
        finally show ?thesis .
      qed
      then show ?thesis using hef_Suc_Suc_ge(2) [of sc go ge i' j'] AE ij by simp
    next
      case AF
      then have a: "a = i'" "b = j" using snoc.prems ab ij by (simp_all add: aln_end_snoc)
      have "?s (xs @ [x]) \<le> snd (snd (hef sc go ge i j))"
      proof (cases "xs \<noteq> [] \<and> last xs = AF")
        case True
        then have "?s (xs @ [x]) = ?s xs - ge" using AF by (simp add: aln_score_snoc)
        also have "\<dots> \<le> snd (snd (hef sc go ge i' j)) - ge" using IH True a by simp
        also have "\<dots> \<le> snd (snd (hef sc go ge i j))" using hef_Suc_Suc_ge(7) [of sc go ge i' j'] ij by simp
        finally show ?thesis .
      next
        case False
        then have "?s (xs @ [x]) = ?s xs - go" using AF by (auto simp: aln_score_snoc)
        also have "\<dots> \<le> fst (hef sc go ge i' j) - go" using IH a by simp
        also have "\<dots> \<le> snd (snd (hef sc go ge i j))" using hef_Suc_Suc_ge(6) [of sc go ge i' j'] ij by simp
        finally show ?thesis .
      qed
      then show ?thesis using hef_Suc_Suc_ge(3) [of sc go ge i' j'] AF ij by simp
    qed
  qed
qed

subsection \<open>Every positive value of the recurrence is the score of an alignment\<close>

lemma aln_score_AM:
  "aln_end i0 j0 xs = (a, b) \<Longrightarrow> aln_score sc go ge i0 j0 (xs @ [AM]) = aln_score sc go ge i0 j0 xs + sc (Suc a) (Suc b)"
  by (simp add: aln_score_snoc)

lemma aln_score_gap_ge:
  "x \<noteq> AM \<Longrightarrow> ge \<le> go \<Longrightarrow> aln_score sc go ge i0 j0 xs - go \<le> aln_score sc go ge i0 j0 (xs @ [x])"
  by (simp add: aln_score_snoc)

lemma aln_score_ext:
  "xs \<noteq> [] \<Longrightarrow> last xs = x \<Longrightarrow> x \<noteq> AM \<Longrightarrow> aln_score sc go ge i0 j0 (xs @ [x]) = aln_score sc go ge i0 j0 xs - ge"
  by (simp add: aln_score_snoc)

lemma hef_upper:
  assumes "0 \<le> ge" "ge \<le> go"
  shows "(0 < fst (hef sc go ge i j) \<longrightarrow> (\<exists>i0 j0 xs. aln_end i0 j0 xs = (i, j) \<and>
            fst (hef sc go ge i j) \<le> aln_score sc go ge i0 j0 xs)) \<and>
         (0 < fst (snd (hef sc go ge i j)) \<longrightarrow> (\<exists>i0 j0 xs. aln_end i0 j0 xs = (i, j) \<and> xs \<noteq> [] \<and> last xs = AE \<and>
            fst (snd (hef sc go ge i j)) \<le> aln_score sc go ge i0 j0 xs)) \<and>
         (0 < snd (snd (hef sc go ge i j)) \<longrightarrow> (\<exists>i0 j0 xs. aln_end i0 j0 xs = (i, j) \<and> xs \<noteq> [] \<and> last xs = AF \<and>
            snd (snd (hef sc go ge i j)) \<le> aln_score sc go ge i0 j0 xs))"
proof (induction "i + j" arbitrary: i j rule: less_induct)
  case less
  let ?H = "\<lambda>a b. fst (hef sc go ge a b)" and ?E = "\<lambda>a b. fst (snd (hef sc go ge a b))"
    and ?F = "\<lambda>a b. snd (snd (hef sc go ge a b))" and ?s = "aln_score sc go ge"
  show ?case
  proof (cases "i = 0 \<or> j = 0")
    case True
    then show ?thesis using hef_border [OF True, of sc go ge] by simp
  next
    case False
    then obtain i' j' where ij: "i = Suc i'" "j = Suc j'" by (metis not0_implies_Suc)
    have IH1: "0 < ?H i' j' \<longrightarrow> (\<exists>i0 j0 xs. aln_end i0 j0 xs = (i', j') \<and> ?H i' j' \<le> ?s i0 j0 xs)"
      using less [of i' j'] ij by simp
    have IH2: "0 < ?H i j' \<longrightarrow> (\<exists>i0 j0 xs. aln_end i0 j0 xs = (i, j') \<and> ?H i j' \<le> ?s i0 j0 xs)"
      "0 < ?E i j' \<longrightarrow> (\<exists>i0 j0 xs. aln_end i0 j0 xs = (i, j') \<and> xs \<noteq> [] \<and> last xs = AE \<and> ?E i j' \<le> ?s i0 j0 xs)"
      using less [of i j'] ij by simp_all
    have IH3: "0 < ?H i' j \<longrightarrow> (\<exists>i0 j0 xs. aln_end i0 j0 xs = (i', j) \<and> ?H i' j \<le> ?s i0 j0 xs)"
      "0 < ?F i' j \<longrightarrow> (\<exists>i0 j0 xs. aln_end i0 j0 xs = (i', j) \<and> xs \<noteq> [] \<and> last xs = AF \<and> ?F i' j \<le> ?s i0 j0 xs)"
      using less [of i' j] ij by simp_all
    have e: "?E i j = max (?H i j' - go) (?E i j' - ge)" and f: "?F i j = max (?H i' j - go) (?F i' j - ge)"
      and h: "?H i j = max (max (?H i' j' + sc i j) (?E i j)) (max (?F i j) 0)"
      using ij by (simp_all add: hef_Suc_Suc Let_def)
    have E: "0 < ?E i j \<longrightarrow> (\<exists>i0 j0 xs. aln_end i0 j0 xs = (i, j) \<and> xs \<noteq> [] \<and> last xs = AE \<and> ?E i j \<le> ?s i0 j0 xs)"
    proof
      assume pos: "0 < ?E i j"
      show "\<exists>i0 j0 xs. aln_end i0 j0 xs = (i, j) \<and> xs \<noteq> [] \<and> last xs = AE \<and> ?E i j \<le> ?s i0 j0 xs"
      proof (cases "?E i j' - ge \<le> ?H i j' - go")
        case True
        then have "0 < ?H i j'" using pos e assms by simp
        then obtain i0 j0 xs where x: "aln_end i0 j0 xs = (i, j')" "?H i j' \<le> ?s i0 j0 xs" using IH2(1) by blast
        have "?E i j \<le> ?s i0 j0 (xs @ [AE])" using aln_score_gap_ge [of AE ge go sc i0 j0 xs] x(2) e True assms by simp
        moreover have "aln_end i0 j0 (xs @ [AE]) = (i, j)" using x(1) ij by (simp add: aln_end_snoc)
        ultimately show ?thesis by fastforce
      next
        case False
        then have "0 < ?E i j'" using pos e assms by simp
        then obtain i0 j0 xs where x: "aln_end i0 j0 xs = (i, j')" "xs \<noteq> []" "last xs = AE" "?E i j' \<le> ?s i0 j0 xs"
          using IH2(2) by blast
        have "?E i j \<le> ?s i0 j0 (xs @ [AE])" using aln_score_ext [OF x(2,3)] x(4) e False by simp
        moreover have "aln_end i0 j0 (xs @ [AE]) = (i, j)" using x(1) ij by (simp add: aln_end_snoc)
        ultimately show ?thesis by fastforce
      qed
    qed
    have F: "0 < ?F i j \<longrightarrow> (\<exists>i0 j0 xs. aln_end i0 j0 xs = (i, j) \<and> xs \<noteq> [] \<and> last xs = AF \<and> ?F i j \<le> ?s i0 j0 xs)"
    proof
      assume pos: "0 < ?F i j"
      show "\<exists>i0 j0 xs. aln_end i0 j0 xs = (i, j) \<and> xs \<noteq> [] \<and> last xs = AF \<and> ?F i j \<le> ?s i0 j0 xs"
      proof (cases "?F i' j - ge \<le> ?H i' j - go")
        case True
        then have "0 < ?H i' j" using pos f assms by simp
        then obtain i0 j0 xs where x: "aln_end i0 j0 xs = (i', j)" "?H i' j \<le> ?s i0 j0 xs" using IH3(1) by blast
        have "?F i j \<le> ?s i0 j0 (xs @ [AF])" using aln_score_gap_ge [of AF ge go sc i0 j0 xs] x(2) f True assms by simp
        moreover have "aln_end i0 j0 (xs @ [AF]) = (i, j)" using x(1) ij by (simp add: aln_end_snoc)
        ultimately show ?thesis by fastforce
      next
        case False
        then have "0 < ?F i' j" using pos f assms by simp
        then obtain i0 j0 xs where x: "aln_end i0 j0 xs = (i', j)" "xs \<noteq> []" "last xs = AF" "?F i' j \<le> ?s i0 j0 xs"
          using IH3(2) by blast
        have "?F i j \<le> ?s i0 j0 (xs @ [AF])" using aln_score_ext [OF x(2,3)] x(4) f False by simp
        moreover have "aln_end i0 j0 (xs @ [AF]) = (i, j)" using x(1) ij by (simp add: aln_end_snoc)
        ultimately show ?thesis by fastforce
      qed
    qed
    have H: "0 < ?H i j \<longrightarrow> (\<exists>i0 j0 xs. aln_end i0 j0 xs = (i, j) \<and> ?H i j \<le> ?s i0 j0 xs)"
    proof
      assume pos: "0 < ?H i j"
      consider "?H i j = ?H i' j' + sc i j" | "?H i j = ?E i j" | "?H i j = ?F i j"
        using h pos by linarith
      then show "\<exists>i0 j0 xs. aln_end i0 j0 xs = (i, j) \<and> ?H i j \<le> ?s i0 j0 xs"
      proof cases
        case 1
        show ?thesis
        proof (cases "0 < ?H i' j'")
          case True
          then obtain i0 j0 xs where x: "aln_end i0 j0 xs = (i', j')" "?H i' j' \<le> ?s i0 j0 xs" using IH1 by blast
          have "?H i j \<le> ?s i0 j0 (xs @ [AM])" using aln_score_AM [OF x(1)] x(2) 1 ij by simp
          moreover have "aln_end i0 j0 (xs @ [AM]) = (i, j)" using x(1) ij by (simp add: aln_end_snoc)
          ultimately show ?thesis by fastforce
        next
          case False
          then have "?H i' j' = 0" using hef_nonneg [of sc go ge i' j'] by simp
          then have "?H i j \<le> ?s i' j' [AM]" using 1 ij by (simp add: aln_score_def gaps_def)
          moreover have "aln_end i' j' [AM] = (i, j)" using ij by simp
          ultimately show ?thesis by fastforce
        qed
      next
        case 2
        then show ?thesis using E pos by fastforce
      next
        case 3
        then show ?thesis using F pos by fastforce
      qed
    qed
    show ?thesis using H E F by blast
  qed
qed

subsection \<open>Reversing both sequences\<close>

text \<open>The scores of the reversed prefixes ending at \<open>(qe, de)\<close>, as the traceback reads
  them.\<close>

definition rev_sc :: "nat \<Rightarrow> nat \<Rightarrow> (nat \<Rightarrow> nat \<Rightarrow> int) \<Rightarrow> nat \<Rightarrow> nat \<Rightarrow> int" where
  "rev_sc qe de sc a b = sc (Suc qe - a) (Suc de - b)"

lemma ext_pairs_Cons:
  "ext_pairs (x # xs) = (if xs \<noteq> [] \<and> hd xs = x \<and> x \<noteq> AM then 1 else 0) + ext_pairs xs"
  by (cases xs) auto

lemma ext_pairs_rev [simp]: "ext_pairs (rev xs) = ext_pairs xs"
  by (induction xs) (auto simp: ext_pairs_snoc ext_pairs_Cons last_rev)

lemma gaps_rev [simp]: "gaps (rev xs) = gaps xs"
  by (simp add: gaps_def rev_filter [symmetric])

lemma aln_end_rev:
  assumes "aln_end i0 j0 xs = (i, j)" "i \<le> qe" "j \<le> de"
  shows "aln_end (qe - i) (de - j) (rev xs) = (qe - i0, de - j0)"
  using assms by (auto simp: aln_end_eq rev_filter [symmetric])

lemma match_sum_rev:
  assumes "aln_end i0 j0 xs = (i, j)" "i \<le> qe" "j \<le> de"
  shows "match_sum (rev_sc qe de sc) (qe - i) (de - j) (rev xs) = match_sum sc i0 j0 xs"
  using assms
proof (induction xs arbitrary: i0 j0)
  case (Cons x xs)
  obtain i1 j1 where x1: "aln_end i0 j0 [x] = (i1, j1)" by fastforce
  have e: "aln_end i1 j1 xs = (i, j)" using Cons.prems(1) x1 by (cases x) auto
  have le: "i1 \<le> i" "j1 \<le> j" using e by (auto simp: aln_end_eq)
  have IH: "match_sum (rev_sc qe de sc) (qe - i) (de - j) (rev xs) = match_sum sc i1 j1 xs"
    using Cons.IH [OF e Cons.prems(2,3)] .
  have r: "aln_end (qe - i) (de - j) (rev xs) = (qe - i1, de - j1)"
    using aln_end_rev [OF e Cons.prems(2,3)] .
  show ?case
  proof (cases x)
    case AM
    then have "i1 = Suc i0" "j1 = Suc j0" using x1 by simp_all
    then have "rev_sc qe de sc (Suc (qe - i1)) (Suc (de - j1)) = sc i1 j1"
      using le Cons.prems(2,3) by (simp add: rev_sc_def Suc_diff_le)
    with AM IH r \<open>i1 = Suc i0\<close> \<open>j1 = Suc j0\<close> show ?thesis by (simp add: match_sum_snoc)
  next
    case AE
    then show ?thesis using IH x1 by (simp add: match_sum_snoc)
  next
    case AF
    then show ?thesis using IH x1 by (simp add: match_sum_snoc)
  qed
qed simp

lemma aln_score_rev:
  assumes "aln_end i0 j0 xs = (i, j)" "i \<le> qe" "j \<le> de"
  shows "aln_score (rev_sc qe de sc) go ge (qe - i) (de - j) (rev xs) = aln_score sc go ge i0 j0 xs"
  using match_sum_rev [OF assms] by (simp add: aln_score_def)

lemma match_sum_cong:
  "aln_end i0 j0 xs = (i, j) \<Longrightarrow> \<forall>a b. i0 < a \<and> a \<le> i \<and> j0 < b \<and> b \<le> j \<longrightarrow> sc a b = sc' a b \<Longrightarrow>
   match_sum sc i0 j0 xs = match_sum sc' i0 j0 xs"
proof (induction xs arbitrary: i0 j0)
  case (Cons x xs)
  have le: "i0 + length (filter (\<lambda>x. x \<noteq> AE) (x # xs)) = i" "j0 + length (filter (\<lambda>x. x \<noteq> AF) (x # xs)) = j"
    using Cons.prems(1) by (simp_all add: aln_end_eq)
  show ?case
  proof (cases x)
    case AM
    then have "sc (Suc i0) (Suc j0) = sc' (Suc i0) (Suc j0)" using Cons.prems(2) le by simp
    then show ?thesis using AM Cons.IH [of "Suc i0" "Suc j0"] Cons.prems by simp
  next
    case AE
    then show ?thesis using Cons.IH [of i0 "Suc j0"] Cons.prems by simp
  next
    case AF
    then show ?thesis using Cons.IH [of "Suc i0" j0] Cons.prems by simp
  qed
qed simp

lemma aln_score_cong:
  "aln_end i0 j0 xs = (i, j) \<Longrightarrow> \<forall>a b. i0 < a \<and> a \<le> i \<and> j0 < b \<and> b \<le> j \<longrightarrow> sc a b = sc' a b \<Longrightarrow>
   aln_score sc go ge i0 j0 xs = aln_score sc' go ge i0 j0 xs"
  by (simp add: aln_score_def match_sum_cong)

lemma rev_sc_rev_sc: "1 \<le> a \<Longrightarrow> a \<le> qe \<Longrightarrow> 1 \<le> b \<Longrightarrow> b \<le> de \<Longrightarrow> rev_sc qe de (rev_sc qe de sc) a b = sc a b"
  by (simp add: rev_sc_def)

subsection \<open>Positions in the scan order\<close>

lemma scan_order_Suc: "scan_order m (Suc n) = scan_order m n @ map (\<lambda>i. (i, Suc n)) [1..<Suc m]"
  by (simp add: scan_order_def)

lemma scan_order_index:
  "0 < m \<Longrightarrow> scan_order m n = map (\<lambda>k. (k mod m + 1, k div m + 1)) [0..<m * n]"
proof (induction n)
  case (Suc n)
  have "[0..<m * Suc n] = [0..<m * n] @ [m * n..<m * n + m]"
    using upt_add_eq_append [of 0 "m * n" m] by (simp add: add.commute)
  moreover have "map (\<lambda>k. (k mod m + 1, k div m + 1)) [m * n..<m * n + m] = map (\<lambda>i. (i, Suc n)) [1..<Suc m]"
    using Suc.prems by (intro nth_equalityI) (auto simp: nth_append)
  ultimately show ?case using Suc by (simp add: scan_order_Suc)
qed (simp add: scan_order_def)

lemma scan_order_before:
  assumes xs: "scan_order m n = us @ (i, j) # vs"
    and c: "1 \<le> i'" "i' \<le> m" "1 \<le> j'" "j' \<le> n" and lt: "j' < j \<or> j' = j \<and> i' < i"
  shows "(i', j') \<in> set us"
proof -
  have m: "0 < m" using c by simp
  let ?f = "\<lambda>k. (k mod m + 1, k div m + 1)"
  have so: "scan_order m n = map ?f [0..<m * n]" by (rule scan_order_index [OF m])
  have lu: "length us < m * n" using arg_cong [OF xs, of length] so by simp
  have "?f (length us) = (i, j)" using arg_cong [OF xs, of "\<lambda>xs. xs ! length us"] so lu by simp
  then have ij: "length us mod m = i - 1" "length us div m = j - 1" "1 \<le> i" "1 \<le> j" by auto
  define k where "k = (i' - 1) + (j' - 1) * m"
  have "i' - 1 < m" using c by simp
  then have "k mod m = i' - 1" "k div m = j' - 1" by (simp_all add: k_def)
  then have fk: "?f k = (i', j')" using c by simp
  have "k < length us"
  proof -
    have lus: "length us = (i - 1) + (j - 1) * m" using ij(1,2) by (metis mod_div_mult_eq)
    have im: "i' - 1 < m" using c by simp
    show ?thesis
    proof (cases "j' < j")
      case True
      then have "j' - 1 + 1 \<le> j - 1" using c by simp
      then have "(j' - 1 + 1) * m \<le> (j - 1) * m" by (rule mult_le_mono1)
      then show ?thesis using im unfolding k_def lus by simp
    next
      case False
      then have "j' = j" "i' - 1 < i - 1" using lt c by auto
      then show ?thesis unfolding k_def lus by simp
    qed
  qed
  then have "scan_order m n ! k = us ! k" using xs by (simp add: nth_append)
  moreover have "scan_order m n ! k = (i', j')" using so fk \<open>k < length us\<close> lu by simp
  ultimately show ?thesis using \<open>k < length us\<close> by (metis nth_mem)
qed

subsection \<open>The forward pass and the traceback in terms of alignments\<close>

lemma sw_spec_nonneg: "0 \<le> fst (sw_spec sc go ge m n)"
  by (simp add: sw_spec_def Let_def)

text \<open>No alignment inside the matrix scores more than the forward pass reports.\<close>

lemma sw_spec_upper:
  assumes "0 \<le> ge" "ge \<le> go" and "aln_end i0 j0 xs = (i, j)" "i \<le> m" "j \<le> n"
  shows "aln_score sc go ge i0 j0 xs \<le> fst (sw_spec sc go ge m n)"
proof -
  have "aln_score sc go ge i0 j0 xs \<le> fst (hef sc go ge i j)" using hef_lower [OF assms(1,2,3)] by blast
  moreover have "fst (hef sc go ge i j) \<le> fst (sw_spec sc go ge m n)"
  proof (cases "i = 0 \<or> j = 0")
    case True
    then show ?thesis using hef_border [OF True, of sc go ge] sw_spec_nonneg [of sc go ge m n] by simp
  next
    case False
    then show ?thesis using assms(4,5) by (intro hef_le_spec) auto
  qed
  ultimately show ?thesis by simp
qed

text \<open>A cell that an alignment of score \<open>r\<close> reaches, \<open>r\<close> positive, lies inside the
  matrix when it is not beyond the last cell.\<close>

lemma aln_cell_inside:
  assumes "0 \<le> ge" "ge \<le> go" "aln_end i0 j0 xs = (i, j)" "0 < aln_score sc go ge i0 j0 xs"
  shows "1 \<le> i \<and> 1 \<le> j"
proof (rule ccontr)
  assume "\<not> (1 \<le> i \<and> 1 \<le> j)"
  then have "i = 0 \<or> j = 0" by auto
  from aln_score_no_AM [OF aln_end_border [OF assms(3) this] assms(1,2), where sc = sc and i = i0 and j = j0] assms(4)
  show False by simp
qed

lemma sw_spec_attained:
  assumes "0 \<le> ge" "ge \<le> go" and "sw_spec sc go ge m n = (r, i, j)" "0 < r"
  shows "\<exists>i0 j0 xs. aln_end i0 j0 xs = (i, j) \<and> aln_score sc go ge i0 j0 xs = r"
proof -
  have h: "fst (hef sc go ge i j) = r" using sw_spec_first [OF assms(3,4)] by blast
  have "(i, j) \<in> set (scan_order m n)" using sw_spec_first [OF assms(3,4)] by auto
  then have ij: "i \<le> m" "j \<le> n" by (simp_all add: set_scan_order)
  obtain i0 j0 xs where x: "aln_end i0 j0 xs = (i, j)" "r \<le> aln_score sc go ge i0 j0 xs"
    using hef_upper [OF assms(1,2), of sc i j] h assms(4) by auto
  moreover have "aln_score sc go ge i0 j0 xs \<le> r"
    using sw_spec_upper [OF assms(1,2) x(1) ij, where sc = sc] assms(3) by simp
  ultimately show ?thesis by fastforce
qed

text \<open>The traceback: run over the reversed prefixes ending at the reported end cell,
  the same pass finds the same score, and its end cell, read back, is the start of an
  alignment that ends at the reported end cell and attains that score.\<close>

lemma sw_traceback:
  assumes g: "0 \<le> ge" "ge \<le> go" and f: "sw_spec sc go ge m n = (r, qe, de)" and r: "0 < r"
  shows "\<exists>a b xs. sw_spec (rev_sc qe de sc) go ge qe de = (r, a, b) \<and> a \<le> qe \<and> b \<le> de \<and>
           aln_end (qe - a) (de - b) xs = (qe, de) \<and> aln_score sc go ge (qe - a) (de - b) xs = r"
proof -
  let ?sc' = "rev_sc qe de sc"
  obtain us vs where first: "scan_order m n = us @ (qe, de) # vs"
    and before: "\<forall>c\<in>set us. fst (hef sc go ge (fst c) (snd c)) < r"
    using sw_spec_first [OF f r] by blast
  have qd: "1 \<le> qe" "qe \<le> m" "1 \<le> de" "de \<le> n"
    using first set_scan_order [of qe de m n] by auto
  text \<open>The optimal alignment ending at the end cell, reversed, gives the reversed pass
    at least \<open>r\<close>.\<close>
  obtain i0 j0 xs where x: "aln_end i0 j0 xs = (qe, de)" "aln_score sc go ge i0 j0 xs = r"
    using sw_spec_attained [OF g f r] by blast
  have xr: "aln_end 0 0 (rev xs) = (qe - i0, de - j0)" "aln_score ?sc' go ge 0 0 (rev xs) = r"
    using aln_end_rev [OF x(1), of qe de] aln_score_rev [OF x(1), of qe de sc go ge] x(2) by simp_all
  have "r \<le> fst (sw_spec ?sc' go ge qe de)"
    using sw_spec_upper [OF g xr(1), where sc = ?sc' and m = qe and n = de] xr(2) by simp
  then obtain r' a b where f': "sw_spec ?sc' go ge qe de = (r', a, b)" and rr': "r \<le> r'" by (metis prod.exhaust fst_conv)
  have r': "0 < r'" using r rr' by simp
  text \<open>The reversed pass's best alignment, read back, is an alignment of the original
    matrix ending no later than the end cell.\<close>
  have ab: "a \<le> qe" "b \<le> de"
    using sw_spec_first [OF f' r'] set_scan_order [of a b qe de] by auto
  obtain a0 b0 ys where y: "aln_end a0 b0 ys = (a, b)" "aln_score ?sc' go ge a0 b0 ys = r'"
    using sw_spec_attained [OF g f' r'] by blast
  have yr: "aln_end (qe - a) (de - b) (rev ys) = (qe - a0, de - b0)"
    using aln_end_rev [OF y(1) ab] .
  have "aln_score (rev_sc qe de ?sc') go ge (qe - a) (de - b) (rev ys) = r'"
    using aln_score_rev [OF y(1) ab, of ?sc' go ge] y(2) by simp
  moreover have "aln_score (rev_sc qe de ?sc') go ge (qe - a) (de - b) (rev ys) = aln_score sc go ge (qe - a) (de - b) (rev ys)"
    using yr by (intro aln_score_cong) (auto simp: rev_sc_rev_sc)
  ultimately have sy: "aln_score sc go ge (qe - a) (de - b) (rev ys) = r'" by simp
  have le: "qe - a0 \<le> qe" "de - b0 \<le> de" by simp_all
  have "r' \<le> r" using sw_spec_upper [OF g yr, where sc = sc and m = m and n = n] le qd sy f by simp
  then have rr: "r' = r" using rr' by simp
  text \<open>Its end cell reaches the maximum, so it cannot come before the end cell in scan
    order.\<close>
  have h: "r \<le> fst (hef sc go ge (qe - a0) (de - b0))"
    using conjunct1 [OF hef_lower [OF g yr, where sc = sc]] sy rr by simp
  have inside: "1 \<le> qe - a0 \<and> 1 \<le> de - b0" using aln_cell_inside [OF g yr, where sc = sc] sy rr r by simp
  have "a0 = 0 \<and> b0 = 0"
  proof (rule ccontr)
    assume "\<not> (a0 = 0 \<and> b0 = 0)"
    then have "de - b0 < de \<or> de - b0 = de \<and> qe - a0 < qe" using qd by auto
    then have "(qe - a0, de - b0) \<in> set us"
      using inside qd by (intro scan_order_before [OF first]) auto
    with before h show False by fastforce
  qed
  then show ?thesis using f' rr ab yr sy by fastforce
qed

lemma sw_spec_zero: "sw_spec sc go ge m n = (0, i, j) \<Longrightarrow> i = 0 \<and> j = 0"
  by (auto simp: sw_spec_def Let_def split: if_splits)

lemma scores16_rev_sc: "scores16 sc \<Longrightarrow> scores16 (rev_sc qe de sc)"
  by (simp add: scores16_def rev_sc_def)

lemma coverage_span:
  "0 < l \<Longrightarrow> qs \<le> qe \<Longrightarrow> qe \<le> l \<Longrightarrow> qe < 65536 \<Longrightarrow>
   coverage l (word_of_nat qe) (word_of_nat qs) = Some ((real qe - real qs) / real l)"
  by (simp add: coverage_def u16_small)


subsection \<open>Properties\<close>

text \<open>C2 (refinement). For a well-formed pair of sequences shorter than 65536 residues
  whose best score fits in 16 bits, \<open>getSWResult\<close> reports the score of an alignment
  whose query and target spans are exactly the stretches its coverages measure (start
  from the traceback, end from the forward pass), and no alignment of the pair scores
  more.\<close>

theorem getSWResult_alignment:
  assumes ok: "pair_ok mt q db" and l: "0 < L q" "L q < 65536" "0 < L db" "L db < 65536"
    and top: "fst (sw_spec (pair_score (mat mt) q db) 10 1 (L q) (L db)) \<le> 32767"
  shows "\<exists>r mt' qs qe ds de xs. getSWResult mt q db n = Inr (r, mt') \<and>
    res_qcov r = Some ((real qe - real qs) / real (L q)) \<and> res_dbcov r = Some ((real de - real ds) / real (L db)) \<and>
    aln_end qs ds xs = (qe, de) \<and> aln_score (pair_score (mat mt) q db) 10 1 qs ds xs = res_score r \<and>
    (\<forall>i0 j0 ys i j. aln_end i0 j0 ys = (i, j) \<and> i \<le> L q \<and> j \<le> L db \<longrightarrow>
       aln_score (pair_score (mat mt) q db) 10 1 i0 j0 ys \<le> res_score r)"
proof -
  let ?sc = "pair_score (mat mt) q db"
  have p: "word_params 10 1" by (simp add: word_params_def)
  have g: "(0::int) \<le> 1" "(1::int) \<le> 10" by simp_all
  have s16: "scores16 ?sc" using ok by (intro scores16_pair) (simp_all add: pair_ok_def)
  obtain s qe de where f: "sw_spec ?sc 10 1 (L q) (L db) = (s, qe, de)" by (metis prod.exhaust)
  have k: "sw_run True 10 1 ?sc (L q) (L db) = (s, qe, de)" using sw_run_sat_exact [OF p s16 top] f by simp
  have qd: "qe \<le> L q" "de \<le> L db" using sw_run_pos [of True 10 1 ?sc "L q" "L db"] k by simp_all
  have u: "unat (word_of_nat qe :: u16) = qe" "unat (word_of_nat de :: u16) = de"
    using qd l by (simp_all add: u16_small)
  have rs: "(\<lambda>i j. ?sc (Suc qe - i) (Suc de - j)) = rev_sc qe de ?sc" by (simp add: rev_sc_def fun_eq_iff)
  have opt: "\<forall>i0 j0 ys i j. aln_end i0 j0 ys = (i, j) \<and> i \<le> L q \<and> j \<le> L db \<longrightarrow> aln_score ?sc 10 1 i0 j0 ys \<le> s"
    using sw_spec_upper [OF g, where sc = ?sc and m = "L q" and n = "L db"] f by fastforce
  obtain a b xs where tb: "sw_run True 10 1 (rev_sc qe de ?sc) qe de = (s, a, b)" and ab: "a \<le> qe" "b \<le> de"
    and x: "aln_end (qe - a) (de - b) xs = (qe, de)" "aln_score ?sc 10 1 (qe - a) (de - b) xs = s"
  proof (cases "0 < s")
    case True
    then obtain a b xs where t: "sw_spec (rev_sc qe de ?sc) 10 1 qe de = (s, a, b)" "a \<le> qe" "b \<le> de"
      "aln_end (qe - a) (de - b) xs = (qe, de)" "aln_score ?sc 10 1 (qe - a) (de - b) xs = s"
      using sw_traceback [OF g f] by blast
    have "sw_run True 10 1 (rev_sc qe de ?sc) qe de = sw_spec (rev_sc qe de ?sc) 10 1 qe de"
      using t(1) top f by (intro sw_run_sat_exact [OF p scores16_rev_sc [OF s16]]) simp
    then show ?thesis using that t by simp
  next
    case False
    then have "s = 0" using sw_spec_nonneg [of ?sc 10 1 "L q" "L db"] f by simp
    then have "qe = 0" "de = 0" using sw_spec_zero f by blast+
    moreover have "sw_run True 10 1 (rev_sc 0 0 ?sc) 0 0 = (0, 0, 0)" by (simp add: sw_run_def)
    ultimately show ?thesis using that [of 0 0 "[]"] \<open>s = 0\<close> by simp
  qed
  have t: "sw_run True 10 1 (\<lambda>i j. ?sc (Suc (unat (word_of_nat qe :: u16)) - i) (Suc (unat (word_of_nat de :: u16)) - j))
            (unat (word_of_nat qe :: u16)) (unat (word_of_nat de :: u16)) = (s, a, b)"
    unfolding u rs by (rule tb)
  have "getSWResult mt q db n =
      Inr (\<lparr>res_dbKey = c_string (dbKey db), res_score = s,
            res_qcov = coverage (L q) (word_of_nat qe) (word_of_nat (qe - a)),
            res_dbcov = coverage (L db) (word_of_nat de) (word_of_nat (de - b)),
            res_evalue = evalue n (L q) (L db) s (bitFactor (mat mt))\<rparr>,
           mt\<lparr>queryProfileWord := profile_spec (mat mt) q (queryProfileWord mt)\<rparr>)"
    using getSWResult_traceback [OF ok k t, of n] u by simp
  moreover have "coverage (L q) (word_of_nat qe) (word_of_nat (qe - a)) = Some ((real qe - real (qe - a)) / real (L q))"
    using qd l by (intro coverage_span) simp_all
  moreover have "coverage (L db) (word_of_nat de) (word_of_nat (de - b)) = Some ((real de - real (de - b)) / real (L db))"
    using qd l by (intro coverage_span) simp_all
  ultimately show ?thesis using x opt by fastforce
qed

theorem getSWResult_alignment_witness:
  "\<exists>r mt' qs qe ds de xs. getSWResult (Matcher nuc_matrix 16) (nseq ''acgta'') (nseq ''cgt'') 100 = Inr (r, mt') \<and>
     res_qcov r = Some ((real qe - real qs) / 5) \<and> res_dbcov r = Some ((real de - real ds) / 3) \<and>
     aln_end qs ds xs = (qe, de) \<and>
     aln_score (pair_score nuc_matrix (nseq ''acgta'') (nseq ''cgt'')) 10 1 qs ds xs = res_score r"
proof -
  have l: "0 < L (nseq ''acgta'')" "L (nseq ''acgta'') < 65536" "0 < L (nseq ''cgt'')" "L (nseq ''cgt'') < 65536"
    by (simp_all add: wit_len)
  have top: "fst (sw_spec (pair_score (mat (Matcher nuc_matrix 16)) (nseq ''acgta'') (nseq ''cgt'')) 10 1
      (L (nseq ''acgta'')) (L (nseq ''cgt''))) \<le> 32767"
    using wit_spec by (simp add: wit_len Matcher_def)
  from getSWResult_alignment [OF wit_ok l top, of 100] show ?thesis by (simp add: wit_len Matcher_def) blast
qed

end
