(* ===== verification/Lifecycle.thy ===== *)
theory Lifecycle
  imports Matcher
begin

text \<open>
  Object lifecycles over an explicit C heap: the allocations of the \<open>Sequence\<close>
  constructor and destructor (\<open>src/src/commons/Sequence.cpp\<close>, lines 3--18), of the
  \<open>Matcher\<close> constructor and destructor (\<open>src/src/alignment/Matcher.cpp\<close>, lines 3--20)
  and the per-pair dynamic-programming matrices of \<open>getSWResult\<close> (lines 30--32 and
  60--62). Addresses are \<open>size_t\<close> values (\<open>64 word\<close>); the heap is the list of live
  blocks. The allocator's answers are parameters, constrained by the contract of
  \<open>memalign\<close> and \<open>new\<close>; \<open>free\<close> of an address that is not the base of a live block is
  the error \<open>InvalidFree\<close> (undefined behaviour in C, an abort in glibc).
\<close>

unbundle bit_operations_syntax

subsection \<open>The heap\<close>

type_synonym addr = "64 word"

text \<open>Live blocks in allocation order: base address and size in bytes.\<close>

type_synonym heap = "(addr \<times> nat) list"

datatype mem_error = InvalidFree addr

definition heap_wf :: "heap \<Rightarrow> bool" where
  "heap_wf h \<longleftrightarrow> distinct (map fst h) \<and> 0 \<notin> set (map fst h)"

text \<open>A block of \<open>n\<close> bytes at \<open>a\<close> the allocator may hand out: not \<open>NULL\<close>, inside the
  address space, and overlapping no live block.\<close>

definition fresh_block :: "heap \<Rightarrow> addr \<Rightarrow> nat \<Rightarrow> bool" where
  "fresh_block h a n \<longleftrightarrow> a \<noteq> 0 \<and> unat a + n \<le> 2 ^ 64 \<and> a \<notin> set (map fst h) \<and>
     (\<forall>(b, m) \<in> set h. unat a + n \<le> unat b \<or> unat b + m \<le> unat a)"

text \<open>\<open>memalign(al, n)\<close> returns \<open>NULL\<close> or a fresh block aligned to \<open>al\<close>; the code never
  tests for \<open>NULL\<close>.\<close>

definition memalign_result :: "heap \<Rightarrow> nat \<Rightarrow> nat \<Rightarrow> addr \<Rightarrow> bool" where
  "memalign_result h al n a \<longleftrightarrow> a = 0 \<or> (fresh_block h a n \<and> unat a mod al = 0)"

definition memalign :: "heap \<Rightarrow> nat \<Rightarrow> addr \<Rightarrow> heap" where
  "memalign h n a = (if a = 0 then h else h @ [(a, n)])"

text \<open>\<open>new T[n]\<close> and \<open>new T\<close> throw instead of returning \<open>NULL\<close>: the block is fresh.\<close>

definition cpp_new :: "heap \<Rightarrow> nat \<Rightarrow> addr \<Rightarrow> heap" where
  "cpp_new h n a = h @ [(a, n)]"

text \<open>\<open>free(p)\<close>, \<open>delete p\<close>, \<open>delete[] p\<close>: \<open>NULL\<close> is a no-op; otherwise \<open>p\<close> must be the
  base of a live block.\<close>

definition c_free :: "heap \<Rightarrow> addr \<Rightarrow> mem_error + heap" where
  "c_free h p =
     (if p = 0 then Inr h
      else if p \<in> set (map fst h) then Inr (filter (\<lambda>b. fst b \<noteq> p) h)
      else Inl (InvalidFree p))"

subsection \<open>Sizes as the code computes them\<close>

text \<open>\<open>m->alphabetSize * maxSeqLen * sizeof(unsigned short)\<close>: an \<open>int\<close> product, then
  converted to \<open>size_t\<close> (sign extension) and multiplied there.\<close>

definition profile_bytes :: "base_matrix \<Rightarrow> nat \<Rightarrow> addr" where
  "profile_bytes m mx = word_of_int (wrap32 (int (alphabetSize m) * int mx)) * 2"

text \<open>\<open>2 * maxSeqLen * sizeof(__m128i) + 256\<close>.\<close>

definition workspace_bytes :: "nat \<Rightarrow> addr" where
  "workspace_bytes mx = word_of_int (wrap32 (2 * int mx)) * 16 + 256"

text \<open>\<open>(query->L + 7)/8 * dbSeq->L * sizeof(__m128i)\<close> (the lengths are non-negative
  \<open>int\<close>s, so \<open>/\<close> is \<open>div\<close>).\<close>

definition pair_matrix_bytes :: "nat \<Rightarrow> nat \<Rightarrow> addr" where
  "pair_matrix_bytes ql dl = word_of_int (wrap32 ((int ql + 7) div 8 * int dl)) * 16"

text \<open>\<open>(void * ) ((((size_t) workspace_memory) + 255) & (~0xff))\<close>.\<close>

definition align256 :: "addr \<Rightarrow> addr" where
  "align256 p = (p + 255) AND NOT 255"

subsection \<open>Constructors and destructors\<close>

text \<open>The pointers a \<open>Sequence\<close> owns (lines 5 and 10); \<open>sizeof(statistics_t)\<close> is a
  parameter.\<close>

record seq_mem =
  int_sequence_ptr :: addr
  stats_ptr :: addr

definition Sequence_new :: "heap \<Rightarrow> nat \<Rightarrow> nat \<Rightarrow> addr \<Rightarrow> addr \<Rightarrow> heap \<times> seq_mem" where
  "Sequence_new h maxLen0 stats_size a_seq a_stats =
     (cpp_new (cpp_new h (4 * maxLen0) a_seq) stats_size a_stats,
      \<lparr>int_sequence_ptr = a_seq, stats_ptr = a_stats\<rparr>)"

definition Sequence_new_ok :: "heap \<Rightarrow> nat \<Rightarrow> nat \<Rightarrow> addr \<Rightarrow> addr \<Rightarrow> bool" where
  "Sequence_new_ok h maxLen0 stats_size a_seq a_stats \<longleftrightarrow>
     fresh_block h a_seq (4 * maxLen0) \<and> fresh_block (cpp_new h (4 * maxLen0) a_seq) a_stats stats_size"

definition Sequence_dtor :: "heap \<Rightarrow> seq_mem \<Rightarrow> mem_error + heap" where
  "Sequence_dtor h sm = sbind (c_free h (int_sequence_ptr sm)) (\<lambda>h. c_free h (stats_ptr sm))"

text \<open>The pointers a \<open>Matcher\<close> owns: the profile buffer and the rounded-up workspace;
  \<open>workspace_memory\<close>, the block \<open>memalign\<close> returned, is a local of the constructor.\<close>

record matcher_mem =
  queryProfileWord_ptr :: addr
  workspace :: addr

definition Matcher_new :: "heap \<Rightarrow> base_matrix \<Rightarrow> nat \<Rightarrow> addr \<Rightarrow> addr \<Rightarrow> heap \<times> matcher \<times> matcher_mem" where
  "Matcher_new h m mx a_prof workspace_memory =
     (let h1 = memalign h (unat (profile_bytes m mx)) a_prof;
          h2 = memalign h1 (unat (workspace_bytes mx)) workspace_memory
      in (h2, Matcher m mx, \<lparr>queryProfileWord_ptr = a_prof, workspace = align256 workspace_memory\<rparr>))"

definition Matcher_new_ok :: "heap \<Rightarrow> base_matrix \<Rightarrow> nat \<Rightarrow> addr \<Rightarrow> addr \<Rightarrow> bool" where
  "Matcher_new_ok h m mx a_prof workspace_memory \<longleftrightarrow>
     memalign_result h 16 (unat (profile_bytes m mx)) a_prof \<and>
     memalign_result (memalign h (unat (profile_bytes m mx)) a_prof) 16 (unat (workspace_bytes mx)) workspace_memory"

definition Matcher_dtor :: "heap \<Rightarrow> matcher_mem \<Rightarrow> mem_error + heap" where
  "Matcher_dtor h mm = sbind (c_free h (queryProfileWord_ptr mm)) (\<lambda>h. c_free h (workspace mm))"

text \<open>The heap footprint of one \<open>getSWResult\<close> call: three \<open>memalign\<close>s, then the three
  \<open>free\<close>s in the same order.\<close>

definition getSWResult_heap :: "heap \<Rightarrow> nat \<Rightarrow> nat \<Rightarrow> addr \<Rightarrow> addr \<Rightarrow> addr \<Rightarrow> mem_error + heap" where
  "getSWResult_heap h ql dl Hmatrix Ematrix Fmatrix =
     (let n = unat (pair_matrix_bytes ql dl);
          h3 = memalign (memalign (memalign h n Hmatrix) n Ematrix) n Fmatrix
      in sbind (c_free h3 Hmatrix) (\<lambda>h. sbind (c_free h Ematrix) (\<lambda>h. c_free h Fmatrix)))"

definition getSWResult_heap_ok :: "heap \<Rightarrow> nat \<Rightarrow> nat \<Rightarrow> addr \<Rightarrow> addr \<Rightarrow> addr \<Rightarrow> bool" where
  "getSWResult_heap_ok h ql dl Hmatrix Ematrix Fmatrix \<longleftrightarrow>
     (let n = unat (pair_matrix_bytes ql dl); h1 = memalign h n Hmatrix; h2 = memalign h1 n Ematrix
      in memalign_result h 16 n Hmatrix \<and> memalign_result h1 16 n Ematrix \<and> memalign_result h2 16 n Fmatrix)"


text \<open>A client session on one worker (spec section 7, lifecycle): construct the
  \<open>Matcher\<close>, align a sequence of pairs, destroy the \<open>Matcher\<close>. Each pair is given by
  its two lengths and the three addresses \<open>memalign\<close> returns for its matrices.\<close>

type_synonym pair_call = "nat \<times> nat \<times> addr \<times> addr \<times> addr"

primrec align_calls :: "heap \<Rightarrow> pair_call list \<Rightarrow> mem_error + heap" where
  "align_calls h [] = Inr h"
| "align_calls h (c # cs) =
     (case c of (ql, dl, Hm, Em, Fm) \<Rightarrow> sbind (getSWResult_heap h ql dl Hm Em Fm) (\<lambda>h. align_calls h cs))"

definition align_calls_ok :: "heap \<Rightarrow> pair_call list \<Rightarrow> bool" where
  "align_calls_ok h cs \<longleftrightarrow> (\<forall>(ql, dl, Hm, Em, Fm) \<in> set cs. getSWResult_heap_ok h ql dl Hm Em Fm)"

definition Matcher_session ::
  "heap \<Rightarrow> base_matrix \<Rightarrow> nat \<Rightarrow> addr \<Rightarrow> addr \<Rightarrow> pair_call list \<Rightarrow> mem_error + heap" where
  "Matcher_session h m mx a_prof workspace_memory cs =
     (case Matcher_new h m mx a_prof workspace_memory of
        (h1, mt, mm) \<Rightarrow> sbind (align_calls h1 cs) (\<lambda>h2. Matcher_dtor h2 mm))"

subsection \<open>Heap lemmas\<close>

lemma memalign_append: "memalign h n a = h @ memalign [] n a"
  by (simp add: memalign_def)

lemma memalign_result_notin: "memalign_result h al n a \<Longrightarrow> a \<noteq> 0 \<Longrightarrow> a \<notin> set (map fst h)"
  by (simp add: memalign_result_def fresh_block_def)

lemma notin_memalign_Nil [simp]: "a \<notin> set (map fst (memalign [] n b)) \<longleftrightarrow> b = 0 \<or> a \<noteq> b"
  by (auto simp: memalign_def)

text \<open>Freeing a block allocated after the blocks \<open>h\<close> and before the blocks \<open>t\<close>
  removes exactly that block.\<close>

lemma c_free_memalign:
  "(a \<noteq> 0 \<Longrightarrow> a \<notin> set (map fst h)) \<Longrightarrow> (a \<noteq> 0 \<Longrightarrow> a \<notin> set (map fst t)) \<Longrightarrow>
   c_free (h @ memalign [] n a @ t) a = Inr (h @ t)"
  by (cases "a = 0") (auto simp: c_free_def memalign_def)

lemma heap_wf_memalign: "heap_wf h \<Longrightarrow> memalign_result h al n a \<Longrightarrow> heap_wf (memalign h n a)"
  using memalign_result_notin [of h al n a] by (auto simp: heap_wf_def memalign_def)

lemma heap_wf_c_free: "heap_wf h \<Longrightarrow> c_free h p = Inr h' \<Longrightarrow> heap_wf h'"
  by (auto simp: heap_wf_def c_free_def distinct_map_filter split: if_splits)

lemma getSWResult_heap_restores:
  assumes "getSWResult_heap_ok h ql dl Hm Em Fm"
  shows "getSWResult_heap h ql dl Hm Em Fm = Inr h"
proof -
  define n where "n = unat (pair_matrix_bytes ql dl)"
  have H: "Hm = 0 \<or> Hm \<notin> set (map fst h)"
    and E: "Em = 0 \<or> Em \<notin> set (map fst (h @ memalign [] n Hm))"
    and F: "Fm = 0 \<or> Fm \<notin> set (map fst (h @ memalign [] n Hm @ memalign [] n Em))"
    using assms memalign_result_notin unfolding getSWResult_heap_ok_def Let_def n_def [symmetric]
    by (metis memalign_append append.assoc)+
  have "c_free (h @ memalign [] n Hm @ memalign [] n Em @ memalign [] n Fm) Hm = Inr (h @ memalign [] n Em @ memalign [] n Fm)"
    using H E F by (intro c_free_memalign) (auto simp: memalign_def)
  moreover have "c_free (h @ memalign [] n Em @ memalign [] n Fm) Em = Inr (h @ memalign [] n Fm)"
    using E F by (intro c_free_memalign) (auto simp: memalign_def)
  moreover have "c_free (h @ memalign [] n Fm @ []) Fm = Inr (h @ [])"
    using F by (intro c_free_memalign) (auto simp: memalign_def)
  ultimately show ?thesis
    unfolding getSWResult_heap_def Let_def n_def [symmetric]
    by (simp add: memalign_append [of "_ @ _"] memalign_append [of h])
qed


lemma align_calls_restores: "align_calls_ok h cs \<Longrightarrow> align_calls h cs = Inr h"
  by (induction cs) (auto simp: align_calls_ok_def getSWResult_heap_restores)

lemma inside_block_not_base:
  "fresh_block h a n \<Longrightarrow> unat a < unat p \<Longrightarrow> unat p < unat a + n \<Longrightarrow> p \<notin> set (map fst h)"
  unfolding fresh_block_def by fastforce

subsection \<open>Word lemmas for the workspace rounding\<close>

lemma and_not_255: "(x::addr) AND NOT 255 = push_bit 8 (drop_bit 8 x)"
proof -
  have m: "(255::addr) = mask 8" by (simp add: mask_eq_exp_minus_1)
  show ?thesis unfolding m by (rule bit_word_eqI) (auto simp: bit_simps)
qed

lemma unat_and_not_255: "unat ((x::addr) AND NOT 255) = unat x div 256 * 256"
proof -
  have "unat x div 256 * 256 \<le> unat x" by simp
  moreover have "unat x < 2 ^ LENGTH(64)" by (rule unsigned_less)
  ultimately have "unat x div 256 * 256 < 2 ^ 64" by simp
  then show ?thesis unfolding and_not_255
    by (simp add: push_bit_eq_mult drop_bit_eq_div unat_mult_lem [THEN iffD1] unat_div)
qed

lemma unat_align256: "unat p + 255 < 2 ^ 64 \<Longrightarrow> unat (align256 p) = (unat p + 255) div 256 * 256"
  using unat_add_lem [of p 255] unfolding align256_def unat_and_not_255 by simp

lemma align256_bounds:
  assumes "unat p + 255 < 2 ^ 64"
  shows "unat (align256 p) mod 256 = 0 \<and> unat p \<le> unat (align256 p) \<and> unat (align256 p) \<le> unat p + 255 \<and>
         (align256 p = p \<longleftrightarrow> unat p mod 256 = 0)"
proof -
  have u: "unat (align256 p) = (unat p + (256 - 1)) div 256 * 256" using unat_align256 [OF assms] by simp
  have e: "align256 p = p \<longleftrightarrow> unat (align256 p) = unat p" by (simp add: word_unat_eq_iff)
  show ?thesis unfolding e u using round_up_eq [of 256 "unat p"] round_up_ge [of 256 "unat p"] by simp
qed

lemma workspace_bytes_exact: "2 * mx < 2 ^ 31 \<Longrightarrow> unat (workspace_bytes mx) = 32 * mx + 256"
proof -
  assume a: "2 * mx < 2 ^ 31"
  then have "wrap32 (2 * int mx) = int (2 * mx)" by (simp add: wrap32_id)
  then have "workspace_bytes mx = word_of_nat (32 * mx + 256)" unfolding workspace_bytes_def by simp
  moreover have "32 * mx + 256 < 2 ^ 64" using a by simp
  ultimately show ?thesis by (simp only: unat_of_nat) simp
qed

subsection \<open>Destruction after construction\<close>

lemma Matcher_new_heap:
  "fst (Matcher_new h m mx a ws) = h @ memalign [] (unat (profile_bytes m mx)) a @ memalign [] (unat (workspace_bytes mx)) ws"
  by (simp add: Matcher_new_def Let_def memalign_def)

text \<open>\<open>~Matcher\<close> right after the constructor: the profile block is released; the second
  \<open>free\<close> gets the rounded-up workspace pointer, which is the block \<open>memalign\<close> returned only
  when that block happens to be 256-aligned.\<close>

lemma Matcher_dtor_after_new:
  assumes ok: "Matcher_new_ok h m mx a ws" and mx: "2 * mx < 2 ^ 31"
  shows "Matcher_dtor (fst (Matcher_new h m mx a ws)) (snd (snd (Matcher_new h m mx a ws))) =
         (if unat ws mod 256 = 0 then Inr h else Inl (InvalidFree (align256 ws)))"
proof -
  define n1 n2 where "n1 = unat (profile_bytes m mx)" and "n2 = unat (workspace_bytes mx)"
  have n2: "n2 = 32 * mx + 256" using workspace_bytes_exact [OF mx] by (simp add: n2_def)
  have a: "a \<noteq> 0 \<Longrightarrow> a \<notin> set (map fst h)"
    using ok memalign_result_notin [of h 16 n1 a] by (simp add: Matcher_new_ok_def n1_def)
  have ws: "ws = 0 \<or> (fresh_block (h @ memalign [] n1 a) ws n2 \<and> unat ws mod 16 = 0)"
    using ok by (simp add: Matcher_new_ok_def memalign_result_def memalign_append [of h] n1_def n2_def)
  then have "a \<noteq> 0 \<Longrightarrow> a \<notin> set (map fst (memalign [] n2 ws))"
    by (auto simp: fresh_block_def memalign_def)
  with a have free1: "c_free (h @ memalign [] n1 a @ memalign [] n2 ws) a = Inr (h @ memalign [] n2 ws)"
    by (rule c_free_memalign)
  have "c_free (h @ memalign [] n2 ws) (align256 ws) = (if unat ws mod 256 = 0 then Inr h else Inl (InvalidFree (align256 ws)))"
  proof (cases "ws = 0")
    case True
    have "align256 0 = 0" by (simp add: align256_def)
    then show ?thesis using True by (simp add: c_free_def memalign_def)
  next
    case False
    with ws have fr: "fresh_block (h @ memalign [] n1 a) ws n2" by simp
    then have lim: "unat ws + 255 < 2 ^ 64" by (simp add: fresh_block_def n2)
    note b = align256_bounds [OF lim]
    show ?thesis
    proof (cases "unat ws mod 256 = 0")
      case True
      then have "align256 ws = ws" using b by simp
      moreover have "ws \<notin> set (map fst h)" using fr by (simp add: fresh_block_def)
      ultimately show ?thesis using True c_free_memalign [of ws h "[]" n2] by simp
    next
      case al: False
      then have lt: "unat ws < unat (align256 ws)" using b word_unat_eq_iff by fastforce
      then have nz: "align256 ws \<noteq> 0" by auto
      have "align256 ws \<notin> set (map fst (h @ memalign [] n1 a))"
        using inside_block_not_base [OF fr lt] b n2 by simp
      then show ?thesis using al nz lt False by (auto simp: c_free_def memalign_def)
    qed
  qed
  with free1 show ?thesis
    by (simp add: Matcher_dtor_def Matcher_new_heap n1_def [symmetric] n2_def [symmetric])
       (simp add: Matcher_new_def Let_def)
qed

lemma cpp_new_eq: "a \<noteq> 0 \<Longrightarrow> cpp_new h n a = h @ memalign [] n a"
  by (simp add: cpp_new_def memalign_def)

lemma profile_bytes_eq: "int (alphabetSize m) * int mx < 2 ^ 31 \<Longrightarrow> unat (profile_bytes m mx) = 2 * (alphabetSize m * mx)"
proof -
  assume a: "int (alphabetSize m) * int mx < 2 ^ 31"
  have "0 \<le> int (alphabetSize m) * int mx" by simp
  then have "wrap32 (int (alphabetSize m) * int mx) = int (alphabetSize m) * int mx"
    using a by (intro wrap32_id) linarith+
  then have "profile_bytes m mx = word_of_nat (2 * (alphabetSize m * mx))" unfolding profile_bytes_def by simp
  moreover have "2 * (alphabetSize m * mx) < 2 ^ 64"
  proof -
    define k where "k = alphabetSize m * mx"
    have "k < 2 ^ 31" using a by (simp add: k_def of_nat_mult [symmetric] del: of_nat_mult)
    then show ?thesis unfolding k_def [symmetric] by simp
  qed
  ultimately show ?thesis by (simp only: unat_of_nat) simp
qed


text \<open>The \<open>int\<close> products overflow for long sequences: the profile of a 21-letter
  alphabet for \<open>maxSeqLen = 2^27\<close> and the matrices of a pair of \<open>2^17\<close>-residue
  sequences ask \<open>memalign\<close> for nearly \<open>2^64\<close> bytes, which fails; the \<open>NULL\<close> result is
  not checked.\<close>

lemma profile_bytes_overflow:
  "profile_bytes (nuc_matrix\<lparr>alphabetSize := 21\<rparr>) 134217728 = 0xFFFFFFFF50000000"
  by (simp add: profile_bytes_def wrap32_eq)

lemma pair_matrix_bytes_overflow: "pair_matrix_bytes 131072 131072 = 0xFFFFFFF800000000"
  by (simp add: pair_matrix_bytes_def wrap32_eq)


subsection \<open>Properties\<close>

text \<open>C3 (error). A whole session on one worker (construct the \<open>Matcher\<close>, align any
  sequence of pairs, destroy it) gives back exactly the heap it started from when the
  workspace block \<open>memalign\<close> returned is 256-aligned, and otherwise ends with \<open>free\<close> of
  the rounded-up workspace pointer, which is not the base of any live block.\<close>

theorem Matcher_session_free:
  assumes "Matcher_new_ok h m mx a ws" and "2 * mx < 2 ^ 31"
    and "align_calls_ok (fst (Matcher_new h m mx a ws)) cs"
  shows "Matcher_session h m mx a ws cs = (if unat ws mod 256 = 0 then Inr h else Inl (InvalidFree (align256 ws)))"
proof -
  obtain h1 mt mm where n: "Matcher_new h m mx a ws = (h1, mt, mm)" by (cases "Matcher_new h m mx a ws") auto
  have "align_calls h1 cs = Inr h1" using align_calls_restores assms(3) n by simp
  then show ?thesis using Matcher_dtor_after_new [OF assms(1,2)] n by (simp add: Matcher_session_def)
qed

text \<open>C31 (bounds). The workspace pointer the constructor stores is 256-aligned, not below
  the block \<open>memalign\<close> returned, and the \<open>2 * maxSeqLen\<close> vectors of 16 bytes the kernel
  uses from it end inside that block.\<close>

theorem Matcher_workspace_in_block:
  assumes "memalign_result (memalign h (unat (profile_bytes m mx)) a) 16 (unat (workspace_bytes mx)) ws"
    and "ws \<noteq> 0" and "2 * mx < 2 ^ 31"
  shows "unat (workspace (snd (snd (Matcher_new h m mx a ws)))) mod 256 = 0 \<and>
         unat ws \<le> unat (workspace (snd (snd (Matcher_new h m mx a ws)))) \<and>
         unat (workspace (snd (snd (Matcher_new h m mx a ws)))) + 32 * mx \<le> unat ws + unat (workspace_bytes mx)"
proof -
  have n2: "unat (workspace_bytes mx) = 32 * mx + 256" by (rule workspace_bytes_exact [OF assms(3)])
  then have "unat ws + 255 < 2 ^ 64" using assms(1,2) by (simp add: memalign_result_def fresh_block_def)
  from align256_bounds [OF this] n2 show ?thesis by (simp add: Matcher_new_def Let_def)
qed

text \<open>C32 (safety). Destroying a \<open>Sequence\<close> right after constructing it releases exactly
  the two blocks the constructor allocated.\<close>

theorem Sequence_lifecycle:
  assumes "Sequence_new_ok h ml ss a b"
  shows "Sequence_dtor (fst (Sequence_new h ml ss a b)) (snd (Sequence_new h ml ss a b)) = Inr h"
proof -
  have fa: "fresh_block h a (4 * ml)" and fb: "fresh_block (h @ memalign [] (4 * ml) a) b ss"
    using assms cpp_new_eq [of a h "4 * ml"] by (auto simp: Sequence_new_ok_def fresh_block_def)
  then have ab: "a \<noteq> 0" "b \<noteq> 0" "a \<notin> set (map fst h)" "b \<notin> set (map fst h)" "b \<noteq> a"
    by (auto simp: fresh_block_def memalign_def)
  have "fst (Sequence_new h ml ss a b) = h @ memalign [] (4 * ml) a @ memalign [] ss b"
    using ab by (simp add: Sequence_new_def cpp_new_eq memalign_append [of "h @ _"])
  moreover have "c_free (h @ memalign [] (4 * ml) a @ memalign [] ss b) a = Inr (h @ memalign [] ss b)"
    using ab by (intro c_free_memalign) (auto simp: memalign_def)
  moreover have "c_free (h @ memalign [] ss b @ []) b = Inr (h @ [])"
    using ab by (intro c_free_memalign) (auto simp: memalign_def)
  ultimately show ?thesis by (simp add: Sequence_dtor_def Sequence_new_def)
qed

subsection \<open>Witnesses\<close>

text \<open>Fixtures: the nucleotide matrix, \<open>maxSeqLen = 16\<close>, the profile block at \<open>0x1000\<close>
  and a workspace block at \<open>0x2010\<close> (16-aligned, as \<open>memalign(16, ...)\<close> guarantees, but
  not 256-aligned); evaluated by \<open>simp\<close> (the \<open>2^64\<close> bound of \<open>fresh_block\<close> is too
  large for \<open>code_simp\<close>).\<close>

lemmas mem_eval = Matcher_new_ok_def memalign_result_def fresh_block_def memalign_def profile_bytes_eq
  nuc_matrix_def workspace_bytes_exact

lemma pair_matrix_bytes_5_5: "unat (pair_matrix_bytes 5 5) = 80"
  by (simp add: pair_matrix_bytes_def wrap32_id)

theorem Matcher_session_free_witness:
  "Matcher_session [] nuc_matrix 16 0x1000 0x2010 [(5, 5, 0x3000, 0x4000, 0x5000)] = Inl (InvalidFree 0x2100)"
proof -
  have "Matcher_new_ok [] nuc_matrix 16 0x1000 0x2010" by (simp add: mem_eval)
  moreover have "align_calls_ok (fst (Matcher_new [] nuc_matrix 16 0x1000 0x2010)) [(5, 5, 0x3000, 0x4000, 0x5000)]"
    by (simp add: align_calls_ok_def getSWResult_heap_ok_def Matcher_new_heap pair_matrix_bytes_5_5 mem_eval)
  moreover have "align256 0x2010 = 0x2100" by (simp add: word_unat_eq_iff unat_align256)
  ultimately show ?thesis
    using Matcher_session_free [of "[]" nuc_matrix 16 "0x1000" "0x2010" "[(5, 5, 0x3000, 0x4000, 0x5000)]"]
    by simp
qed

theorem Matcher_workspace_in_block_witness:
  "unat (workspace (snd (snd (Matcher_new [] nuc_matrix 16 0x1000 0x2010)))) mod 256 = 0"
proof -
  have "memalign_result (memalign [] (unat (profile_bytes nuc_matrix 16)) 0x1000) 16 (unat (workspace_bytes 16)) 0x2010"
    by (simp add: mem_eval)
  from Matcher_workspace_in_block [OF this] show ?thesis by simp
qed

theorem Sequence_lifecycle_witness:
  "Sequence_dtor (fst (Sequence_new [(0x100, 8)] 16 40 0x1000 0x2000)) (snd (Sequence_new [(0x100, 8)] 16 40 0x1000 0x2000)) = Inr [(0x100, 8)]"
proof -
  have "Sequence_new_ok [(0x100, 8)] 16 40 0x1000 0x2000" by (simp add: Sequence_new_ok_def fresh_block_def cpp_new_def)
  then show ?thesis by (rule Sequence_lifecycle)
qed

end
