(* ===== verification/Gff.thy ===== *)
theory Gff
  imports Prelude
begin

text \<open>
  The \<open>gff2ffindex\<close> tool (\<open>src/src/util/gff2ffindex.cpp\<close>): for every line of a GFF3
  file that is not a comment, has nine tab-separated fields, the requested feature type
  and two valid coordinates, it cuts \<open>body[start .. end)\<close> out of the sequence entry
  named in field 1 and writes it, with a header derived from the header entry, to two
  output databases under a fresh identifier. The state the loop threads through is the
  line counter \<open>entries_num\<close>, the C library's \<open>errno\<close>, the records written so far
  and the warnings printed. The database reader and writer, \<open>std::getline\<close>,
  \<open>strtoull\<close>, \<open>snprintf\<close> and the two \<open>Util\<close> helpers are not part of the sources:
  the reader is a list of (key, entry data) pairs, a writer the list of records it
  received, and the C library functions follow their C standard behaviour.
  \<open>Util::parseFastaHeader\<close> is a parameter of the model. Undefined behaviour of the
  source (a write or read outside a buffer) is an error value.
\<close>

subsection \<open>Library functions\<close>

definition is_digit :: "char \<Rightarrow> bool" where
  "is_digit c \<longleftrightarrow> 48 \<le> (of_char c :: nat) \<and> (of_char c :: nat) \<le> 57"

definition digit_value :: "char \<Rightarrow> nat" where
  "digit_value c = of_char c - 48"

definition digit_char :: "nat \<Rightarrow> char" where
  "digit_char d = ''0123456789'' ! d"

text \<open>\<open>isspace\<close> in the C locale.\<close>

definition c_isspace :: "char \<Rightarrow> bool" where
  "c_isspace c \<longleftrightarrow> c = CHR '' '' \<or> (9 \<le> (of_char c :: nat) \<and> (of_char c :: nat) \<le> 13)"

definition digits_value :: "char list \<Rightarrow> nat" where
  "digits_value ds = foldl (\<lambda>acc c. acc * 10 + digit_value c) 0 ds"

text \<open>\<open>2^64\<close>: values of \<open>unsigned long long\<close> and \<open>size_t\<close> are below it.\<close>

definition ull_mod :: nat where
  "ull_mod = 18446744073709551616"

text \<open>\<open>strtoull(s, &rest, 10)\<close>: the value, whether any digit was consumed (\<open>rest != s\<close>),
  the rest of the string after the digits, and whether \<open>errno\<close> is set to \<open>ERANGE\<close>.
  With no digits the value is 0 and \<open>rest\<close> is \<open>s\<close>; a minus sign negates modulo
  \<open>2^64\<close>; a value above \<open>ULLONG_MAX\<close> gives \<open>ULLONG_MAX\<close> and \<open>ERANGE\<close>.\<close>

definition strtoull :: "char list \<Rightarrow> nat \<times> bool \<times> char list \<times> bool" where
  "strtoull s =
     (let s1 = dropWhile c_isspace s;
          (neg, s2) = (case s1 of
                         c # cs \<Rightarrow> if c = CHR ''+'' then (False, cs)
                                   else if c = CHR ''-'' then (True, cs) else (False, s1)
                       | [] \<Rightarrow> (False, []));
          ds = takeWhile is_digit s2;
          rest = dropWhile is_digit s2;
          v = digits_value ds
      in if ds = [] then (0, False, s, False)
         else if ull_mod \<le> v then (ull_mod - 1, True, rest, True)
         else ((if neg then (ull_mod - v) mod ull_mod else v), True, rest, False))"

text \<open>\<open>%zu\<close> and \<open>SSTR\<close>: decimal notation.\<close>

fun show_nat :: "nat \<Rightarrow> string" where
  "show_nat n = (if n < 10 then [digit_char n] else show_nat (n div 10) @ [digit_char (n mod 10)])"

declare show_nat.simps [simp del]

text \<open>\<open>std::getline\<close> over the whole file: lines split at newline characters, a last
  line without newline included when it is not empty.\<close>

function file_lines :: "string \<Rightarrow> string list" where
  "file_lines [] = []"
| "file_lines (c # cs) =
     takeWhile (\<lambda>x. x \<noteq> newline) (c # cs) # file_lines (drop 1 (dropWhile (\<lambda>x. x \<noteq> newline) (c # cs)))"
  by pat_completeness auto
termination
proof (relation "measure length")
  fix c cs
  have "length (dropWhile (\<lambda>x. x \<noteq> newline) (c # cs)) \<le> length (c # cs)"
    by (rule length_dropWhile_le)
  then show "(drop 1 (dropWhile (\<lambda>x. x \<noteq> newline) (c # cs)), c # cs) \<in> measure length"
    by simp
qed simp

text \<open>\<open>Util::split(line, "\t")\<close>: the tab-separated fields, as \<open>strtok\<close> returns them
  (runs of separators are one separator, empty fields are dropped).\<close>

fun split_tab_acc :: "string \<Rightarrow> string \<Rightarrow> string list" where
  "split_tab_acc [] cur = (if cur = [] then [] else [rev cur])"
| "split_tab_acc (c # cs) cur =
     (if c = CHR 0x09 then (if cur = [] then split_tab_acc cs [] else rev cur # split_tab_acc cs [])
      else split_tab_acc cs (c # cur))"

definition split_tab :: "string \<Rightarrow> string list" where
  "split_tab s = split_tab_acc s []"


subsection \<open>Databases and state\<close>

text \<open>An ffindex database as the reader sees it: (key, entry data) pairs in index
  order. \<open>getSeqLens\<close> of an entry is the length of its data, which ends with the
  entry's NUL byte.\<close>

type_synonym ffindex = "(string \<times> string) list"

text \<open>\<open>DBReader::getId\<close>: the position of the key, \<open>None\<close> for \<open>UINT_MAX\<close>.\<close>

definition db_getId :: "ffindex \<Rightarrow> string \<Rightarrow> nat option" where
  "db_getId db k = (let i = length (takeWhile (\<lambda>e. fst e \<noteq> k) db) in if i < length db then Some i else None)"

text \<open>\<open>DBReader::getDataByDBKey\<close>: the entry data, \<open>None\<close> for \<open>NULL\<close>.\<close>

definition db_getDataByDBKey :: "ffindex \<Rightarrow> string \<Rightarrow> string option" where
  "db_getDataByDBKey db k = map_of db k"

record gff_params =
  gffType :: string
  useHeader :: bool
  identifierOffset :: nat

datatype gff_warning = InvalidFormat | InvalidStart | InvalidEnd | InvalidLength

text \<open>Exits with \<open>EXIT_FAILURE\<close>, and the undefined behaviour of the source as error
  values: a store outside the header buffer, a header left without its terminating
  NUL, a read past the sequence entry, a variable-length array of \<open>2^64\<close>-wrapped size.\<close>

datatype gff_error =
    EntryNotFound string
  | HeaderWriteOutOfRange nat
  | HeaderUnterminated nat
  | BodyReadOutOfRange nat nat
  | BodyBufferOverflow nat nat

text \<open>The loop state: \<open>entries_num\<close>, whether \<open>errno == ERANGE\<close>, the records passed
  to the two writers and the warnings printed (with their line numbers).\<close>

record gff_state =
  entries_num :: nat
  errno_erange :: bool
  hdr_out :: ffindex
  seq_out :: ffindex
  warnings :: "(gff_warning \<times> nat) list"

definition warn :: "gff_warning \<Rightarrow> gff_state \<Rightarrow> gff_state" where
  "warn w st = st\<lparr>warnings := warnings st @ [(w, entries_num st)]\<rparr>"

subsection \<open>One line\<close>

text \<open>Lines 89--99: \<open>strtoull\<close> followed by the check
  \<open>(rest != s && *rest != '\0') || errno == ERANGE\<close>; \<open>errno\<close> is never reset. The
  result is the value, the new \<open>errno\<close> flag and whether the field is accepted.\<close>

definition coord_check :: "string \<Rightarrow> bool \<Rightarrow> nat \<times> bool \<times> bool" where
  "coord_check f er =
     (case strtoull f of
        (v, consumed, rest, erange) \<Rightarrow>
          (let er' = er \<or> erange in (v, er', \<not> ((consumed \<and> rest \<noteq> []) \<or> er'))))"

text \<open>The text \<open>snprintf\<close> formats (lines 135 and 137).\<close>

definition format_header :: "bool \<Rightarrow> string \<Rightarrow> string \<Rightarrow> nat \<Rightarrow> nat \<Rightarrow> string" where
  "format_header cmp hdr typ st en =
     hdr @ '' '' @ (if cmp then typ @ '':'' else []) @ show_nat st @ ''-'' @ show_nat en @ [newline]"

text \<open>Lines 133--142: \<open>snprintf\<close> into \<open>char buffer[headerLength + 128]\<close> keeps at
  most \<open>headerLength + 127\<close> characters; then \<open>buffer[headerLength - 2] = ' '\<close> with
  \<open>size_t\<close> arithmetic, and \<open>strlen(buffer)\<close> bytes are written.\<close>

definition make_header :: "nat \<Rightarrow> string \<Rightarrow> gff_error + string" where
  "make_header hl fmt =
     (let buf = take (hl + 127) fmt in
      if hl < 2 then Inl (HeaderWriteOutOfRange hl)
      else if hl - 2 < length buf then Inr (buf[hl - 2 := CHR '' ''])
      else if hl - 2 = length buf then Inl (HeaderUnterminated hl)
      else Inr buf)"

text \<open>Lines 145--148: \<open>strncpy(bodyBuffer, body + start, length)\<close> reads up to
  \<open>length\<close> characters from position \<open>start\<close>, stops at a NUL and pads with NULs;
  then a newline is appended.\<close>

definition cut_body :: "string \<Rightarrow> nat \<Rightarrow> nat \<Rightarrow> gff_error + string" where
  "cut_body bd st len =
     (let r = drop st bd in
      if CHR 0x00 \<in> set (take len r) \<or> len \<le> length r
      then (let cs = takeWhile (\<lambda>c. c \<noteq> CHR 0x00) (take len r) in
            Inr (cs @ replicate (len - length cs) (CHR 0x00) @ [newline]))
      else Inl (BodyReadOutOfRange st (length bd)))"

text \<open>The body of the \<open>while (getline ...)\<close> loop, lines 66--148.\<close>

definition process_line ::
  "gff_params \<Rightarrow> (string \<Rightarrow> string) \<Rightarrow> ffindex \<Rightarrow> ffindex \<Rightarrow> gff_state \<Rightarrow> string \<Rightarrow> gff_error + gff_state" where
  "process_line p parseFastaHeader hdrs seqs st0 line =
     (let st = st0\<lparr>entries_num := Suc (entries_num st0)\<rparr>; fields = split_tab line;
          cmp = (gffType p \<noteq> [])
      in if CHR ''#'' \<in> set line then Inr st
      else if length fields \<noteq> 9 then Inr (warn InvalidFormat st)
      else if cmp \<and> fields ! 2 \<noteq> gffType p then Inr st
      else (case coord_check (fields ! 3) (errno_erange st) of
        (start, er1, ok1) \<Rightarrow>
          if \<not> ok1 then Inr (warn InvalidStart (st\<lparr>errno_erange := er1\<rparr>))
          else (case coord_check (fields ! 4) er1 of
            (end, er2, ok2) \<Rightarrow>
              (let st = st\<lparr>errno_erange := er2\<rparr> in
               if \<not> ok2 then Inr (warn InvalidEnd st)
               else if start = end then Inr (warn InvalidLength st)
               else (case db_getId hdrs (fields ! 0) of
                 None \<Rightarrow> Inl (EntryNotFound (fields ! 0))
               | Some hid \<Rightarrow> (case db_getDataByDBKey seqs (fields ! 0) of
                   None \<Rightarrow> Inl (EntryNotFound (fields ! 0))
                 | Some body \<Rightarrow>
                     (let header = snd (hdrs ! hid);
                          key = (if useHeader p then parseFastaHeader (c_string body)
                                 else show_nat (identifierOffset p + entries_num st))
                      in sbind (make_header (length header)
                                  (format_header cmp (c_string header) (fields ! 2) start end)) (\<lambda>hbuf.
                         if end < start then Inl (BodyBufferOverflow start end)
                         else sbind (cut_body body start (end - start)) (\<lambda>bbuf.
                           Inr (st\<lparr>hdr_out := hdr_out st @ [(key, hbuf)],
                                   seq_out := seq_out st @ [(key, bbuf)]\<rparr>))))))))))"

primrec gff_loop ::
  "gff_params \<Rightarrow> (string \<Rightarrow> string) \<Rightarrow> ffindex \<Rightarrow> ffindex \<Rightarrow> gff_state \<Rightarrow> string list \<Rightarrow> gff_error + gff_state" where
  "gff_loop p pf hdrs seqs st [] = Inr st"
| "gff_loop p pf hdrs seqs st (l # ls) = sbind (process_line p pf hdrs seqs st l) (\<lambda>st'. gff_loop p pf hdrs seqs st' ls)"

text \<open>The whole tool, from the GFF text and the two input databases; \<open>errno0\<close> is
  whether \<open>errno\<close> already holds \<open>ERANGE\<close> when the loop starts.\<close>

definition gff2ffindex ::
  "gff_params \<Rightarrow> (string \<Rightarrow> string) \<Rightarrow> ffindex \<Rightarrow> ffindex \<Rightarrow> bool \<Rightarrow> string \<Rightarrow> gff_error + gff_state" where
  "gff2ffindex p pf hdrs seqs errno0 text =
     gff_loop p pf hdrs seqs
       \<lparr>entries_num = 0, errno_erange = errno0, hdr_out = [], seq_out = [], warnings = []\<rparr> (file_lines text)"

text \<open>Fixtures: a header database and a sequence database with one entry \<open>chr1\<close>
  (data ending with a newline and the NUL byte, as ffindex stores them), and GFF lines
  built from their nine fields.\<close>

definition ex_hdrs :: ffindex where
  "ex_hdrs = [(''chr1'', ''chr1 test'' @ [newline, CHR 0x00])]"

definition ex_seqs :: ffindex where
  "ex_seqs = [(''chr1'', ''ACGTACGTAC'' @ [newline, CHR 0x00])]"

definition ex_params :: gff_params where
  "ex_params = \<lparr>gffType = [], useHeader = False, identifierOffset = 0\<rparr>"

primrec join_tab :: "string list \<Rightarrow> string" where
  "join_tab [] = []"
| "join_tab (f # fs) = (if fs = [] then f else f @ CHR 0x09 # join_tab fs)"

definition gff_text :: "string list list \<Rightarrow> string" where
  "gff_text lines = concat (map (\<lambda>fs. join_tab fs @ [newline]) lines)"

definition feature :: "string \<Rightarrow> string \<Rightarrow> string \<Rightarrow> string list" where
  "feature st en attr = [''chr1'', ''src'', ''gene'', st, en, ''.'', ''+'', ''.'', attr]"

text \<open>The invariant of the loop state: both writers have received records under the
  same keys in the same order, and every line read produced at most one record pair
  or one warning.\<close>

definition gff_inv :: "gff_state \<Rightarrow> bool" where
  "gff_inv st \<longleftrightarrow> map fst (hdr_out st) = map fst (seq_out st) \<and>
     length (seq_out st) + length (warnings st) \<le> entries_num st"


subsection \<open>Decimal notation\<close>

lemma digit_char_props:
  assumes "d < 10"
  shows "is_digit (digit_char d) \<and> digit_value (digit_char d) = d"
proof -
  have "d \<in> {0, 1, 2, 3, 4, 5, 6, 7, 8, 9}" using assms by auto
  then show ?thesis by (auto simp: digit_char_def is_digit_def digit_value_def)
qed

lemma show_nat_digits: "show_nat n \<noteq> [] \<and> (\<forall>c\<in>set (show_nat n). is_digit c)"
proof (induction n rule: show_nat.induct)
  case (1 n)
  have eq: "show_nat n = (if n < 10 then [digit_char n] else show_nat (n div 10) @ [digit_char (n mod 10)])"
    by (rule show_nat.simps)
  show ?case
  proof (cases "n < 10")
    case True
    then show ?thesis using digit_char_props [of n] by (simp add: eq)
  next
    case False
    then show ?thesis using 1 digit_char_props [of "n mod 10"] by (simp add: eq)
  qed
qed

lemma digits_value_snoc: "digits_value (xs @ [c]) = digits_value xs * 10 + digit_value c"
  by (simp add: digits_value_def)

lemma digits_value_show_nat: "digits_value (show_nat n) = n"
proof (induction n rule: show_nat.induct)
  case (1 n)
  show ?case
  proof (cases "n < 10")
    case True
    then show ?thesis using digit_char_props [of n] by (subst show_nat.simps) (simp add: digits_value_def)
  next
    case False
    then have "digits_value (show_nat n) = digits_value (show_nat (n div 10)) * 10 + digit_value (digit_char (n mod 10))"
      by (subst show_nat.simps) (simp add: digits_value_snoc)
    with 1 False digit_char_props [of "n mod 10"] show ?thesis by simp
  qed
qed

lemma is_digit_not_space: "is_digit c \<Longrightarrow> \<not> c_isspace c \<and> c \<noteq> CHR ''+'' \<and> c \<noteq> CHR ''-''"
  by (auto simp: is_digit_def c_isspace_def)

lemma strtoull_digits:
  assumes "ds \<noteq> []" and "\<forall>c\<in>set ds. is_digit c" and "digits_value ds < ull_mod"
  shows "strtoull ds = (digits_value ds, True, [], False)"
proof -
  obtain c cs where ds: "ds = c # cs" using assms(1) by (cases ds) auto
  have c: "\<not> c_isspace c" "c \<noteq> CHR ''+''" "c \<noteq> CHR ''-''" using assms(2) ds is_digit_not_space by auto
  have tw: "takeWhile is_digit cs = cs" and dw: "dropWhile is_digit cs = []" and d: "is_digit c"
    using assms(2) ds by simp_all
  show ?thesis using assms(3) c d by (simp add: strtoull_def ds tw dw Let_def)
qed

lemma strtoull_show_nat: "n < ull_mod \<Longrightarrow> strtoull (show_nat n) = (n, True, [], False)"
  using strtoull_digits [of "show_nat n"] show_nat_digits [of n] by (simp add: digits_value_show_nat)


lemmas gff_eval = strtoull_def is_digit_def digits_value_def digit_value_def c_isspace_def ull_mod_def
  coord_check_def split_tab_def format_header_def make_header_def cut_body_def process_line_def warn_def
  db_getId_def db_getDataByDBKey_def digit_char_def gff2ffindex_def Let_def c_string_def show_nat.simps
  ex_hdrs_def ex_seqs_def ex_params_def gff_text_def feature_def

subsection \<open>Header and body buffers\<close>

lemma make_header_newline:
  assumes "hl = length h + 2" and "length rest \<le> 127"
  shows "make_header hl (h @ newline # rest) = Inr (h @ CHR '' '' # rest)"
proof -
  have t: "take (hl + 127) (h @ newline # rest) = h @ newline # rest" using assms by simp
  have "(h @ newline # rest)[length h := CHR '' ''] = h @ CHR '' '' # rest" by simp
  with t assms(1) show ?thesis by (simp add: make_header_def)
qed

lemma take_c_string: "n \<le> length (c_string xs) \<Longrightarrow> take n xs = take n (c_string xs)"
  unfolding c_string_def by (metis min.absorb1 take_take takeWhile_eq_take)

lemma cut_body_within:
  assumes "b \<le> length (c_string body)" and "a \<le> b"
  shows "cut_body body a (b - a) = Inr (take (b - a) (drop a (c_string body)) @ [newline])"
proof -
  have lb: "length (c_string body) \<le> length body" by (simp add: c_string_def length_takeWhile_le)
  have eq: "take (b - a) (drop a body) = take (b - a) (drop a (c_string body))"
    using assms take_c_string [OF assms(1)] by (simp add: take_drop)
  have nz: "CHR 0x00 \<notin> set (take (b - a) (drop a (c_string body)))"
    by (auto simp: c_string_def dest: in_set_takeD in_set_dropD set_takeWhileD)
  have len: "b - a \<le> length (drop a body)" using assms lb by simp
  have "takeWhile (\<lambda>c. c \<noteq> CHR 0x00) (take (b - a) (drop a body)) = take (b - a) (drop a (c_string body))"
    using nz unfolding eq by (auto simp: takeWhile_eq_all_conv)
  moreover have "length (take (b - a) (drop a (c_string body))) = b - a" using assms by simp
  ultimately show ?thesis using len by (simp add: cut_body_def Let_def)
qed


lemma length_show_nat: "n < 10 ^ k \<Longrightarrow> 0 < k \<Longrightarrow> length (show_nat n) \<le> k"
proof (induction n arbitrary: k rule: show_nat.induct)
  case (1 n)
  have eq: "show_nat n = (if n < 10 then [digit_char n] else show_nat (n div 10) @ [digit_char (n mod 10)])"
    by (rule show_nat.simps)
  show ?case
  proof (cases "n < 10")
    case True
    with 1(3) show ?thesis by (simp add: eq)
  next
    case False
    then obtain k' where k: "k = Suc k'" using 1(3) by (cases k) auto
    then have "n div 10 < 10 ^ k'" using 1(2) by simp
    moreover have "0 < k'" using False k 1(2) by (cases k') auto
    ultimately show ?thesis using 1(1) False k by (simp add: eq)
  qed
qed

lemma length_show_nat_ull: "n < ull_mod \<Longrightarrow> length (show_nat n) \<le> 20"
  by (rule length_show_nat) (simp_all add: ull_mod_def)

lemma coord_check_show_nat: "n < ull_mod \<Longrightarrow> coord_check (show_nat n) False = (n, False, True)"
  by (simp add: coord_check_def strtoull_show_nat)

lemma strtoull_no_digit:
  assumes "\<forall>c\<in>set f. \<not> is_digit c"
  shows "strtoull f = (0, False, f, False)"
proof -
  have nd: "takeWhile is_digit xs = []" if "set xs \<subseteq> set f" for xs
    using that assms by (cases xs) auto
  have sub: "set (dropWhile c_isspace f) \<subseteq> set f" by (auto dest: set_dropWhileD)
  show ?thesis
  proof (cases "dropWhile c_isspace f")
    case Nil
    show ?thesis unfolding strtoull_def Let_def Nil by simp
  next
    case (Cons c cs)
    with sub have "set cs \<subseteq> set f" "set (c # cs) \<subseteq> set f" by auto
    then have "takeWhile is_digit cs = []" "takeWhile is_digit (c # cs) = []" by (simp_all only: nd)
    then show ?thesis using Cons by (simp add: strtoull_def Let_def)
  qed
qed

lemma coord_check_no_digit: "\<forall>c\<in>set f. \<not> is_digit c \<Longrightarrow> coord_check f er = (0, er, \<not> er)"
  by (simp add: coord_check_def strtoull_no_digit)

lemma coord_check_erange: "\<exists>v. coord_check f True = (v, True, False)"
  by (simp add: coord_check_def split: prod.split)

subsection \<open>One line, by cases\<close>

text \<open>With \<open>errno\<close> already at \<open>ERANGE\<close>, a line is a comment, a malformed line, a
  line of another type, or rejected at its start coordinate.\<close>

lemma process_line_erange:
  assumes "errno_erange st"
  shows "process_line p pf hdrs seqs st l =
    Inr (if CHR ''#'' \<in> set l then st\<lparr>entries_num := Suc (entries_num st)\<rparr>
         else if length (split_tab l) \<noteq> 9 then warn InvalidFormat (st\<lparr>entries_num := Suc (entries_num st)\<rparr>)
         else if gffType p \<noteq> [] \<and> split_tab l ! 2 \<noteq> gffType p then st\<lparr>entries_num := Suc (entries_num st)\<rparr>
         else warn InvalidStart (st\<lparr>entries_num := Suc (entries_num st)\<rparr>))"
proof -
  obtain v where "coord_check (split_tab l ! 3) True = (v, True, False)" using coord_check_erange by blast
  then show ?thesis using assms by (cases st) (simp add: process_line_def Let_def)
qed

text \<open>A line that passes the comment, format, type and coordinate checks with distinct
  coordinates, and whose entry is in both databases with a header ending in newline
  and NUL: the header record is formatted, and then the body is cut, or, for
  \<open>end < start\<close>, the body buffer's size wraps.\<close>

lemma process_line_coords:
  assumes nc: "CHR ''#'' \<notin> set line" and f: "split_tab line = fs" "length fs = 9"
    and ty: "gffType p = []" and er: "\<not> errno_erange st"
    and ca: "coord_check (fs ! 3) False = (a, False, True)" and cb: "coord_check (fs ! 4) False = (b, False, True)"
    and ne: "a \<noteq> b" and ab: "a < ull_mod" "b < ull_mod"
    and hid: "db_getId hdrs (fs ! 0) = Some hid"
    and h: "c_string (snd (hdrs ! hid)) = h @ [newline]" "length (snd (hdrs ! hid)) = length h + 2"
    and body: "db_getDataByDBKey seqs (fs ! 0) = Some body"
  shows "process_line p pf hdrs seqs st line =
    (if b < a then Inl (BodyBufferOverflow a b)
     else sbind (cut_body body a (b - a)) (\<lambda>bbuf.
       Inr (st\<lparr>entries_num := Suc (entries_num st),
            hdr_out := hdr_out st @
              [(if useHeader p then pf (c_string body) else show_nat (identifierOffset p + Suc (entries_num st)),
                h @ '' '' @ '' '' @ show_nat a @ ''-'' @ show_nat b @ [newline])],
            seq_out := seq_out st @
              [(if useHeader p then pf (c_string body) else show_nat (identifierOffset p + Suc (entries_num st)),
                bbuf)]\<rparr>)))"
proof -
  have rest: "length ('' '' @ show_nat a @ ''-'' @ show_nat b @ [newline]) \<le> 127"
    using length_show_nat_ull [OF ab(1)] length_show_nat_ull [OF ab(2)] by simp
  have mh: "make_header (length (snd (hdrs ! hid)))
      (format_header False (c_string (snd (hdrs ! hid))) (fs ! 2) a b) =
      Inr (h @ '' '' @ '' '' @ show_nat a @ ''-'' @ show_nat b @ [newline])"
    using make_header_newline [OF h(2) rest] by (simp add: format_header_def h(1))
  have st: "st\<lparr>entries_num := Suc (entries_num st), errno_erange := False\<rparr> =
            st\<lparr>entries_num := Suc (entries_num st)\<rparr>"
    using er by simp
  show ?thesis
    using nc f ty er ca cb ne hid body mh
    by (simp add: process_line_def Let_def st)
qed

subsection \<open>Properties\<close>

text \<open>C23 (functional). A well-formed feature line (no \<open>#\<close>, nine fields, coordinates
  written in decimal with \<open>start < end\<close>, entries present in both databases, a header
  entry ending in newline and NUL, \<open>end\<close> within the sequence) adds one record to each
  output under the same key: the header with its newline replaced by a space followed
  by \<open>" start-end"\<close>, and the residues \<open>body[start .. end)\<close> (0-based: the first
  residue of a 1-based GFF feature is dropped) followed by a newline. With
  \<open>useHeader\<close> the key is parsed from the sequence body, not from the header.\<close>

theorem process_line_feature:
  assumes nc: "CHR ''#'' \<notin> set line" and f: "split_tab line = fs" "length fs = 9"
    and ty: "gffType p = []" and er: "\<not> errno_erange st"
    and a: "fs ! 3 = show_nat a" and b: "fs ! 4 = show_nat b" and ab: "a < b" "b < ull_mod"
    and hid: "db_getId hdrs (fs ! 0) = Some hid"
    and h: "c_string (snd (hdrs ! hid)) = h @ [newline]" "length (snd (hdrs ! hid)) = length h + 2"
    and body: "db_getDataByDBKey seqs (fs ! 0) = Some body" "b \<le> length (c_string body)"
  shows "process_line p pf hdrs seqs st line =
    Inr (st\<lparr>entries_num := Suc (entries_num st),
            hdr_out := hdr_out st @
              [(if useHeader p then pf (c_string body) else show_nat (identifierOffset p + Suc (entries_num st)),
                h @ '' '' @ '' '' @ show_nat a @ ''-'' @ show_nat b @ [newline])],
            seq_out := seq_out st @
              [(if useHeader p then pf (c_string body) else show_nat (identifierOffset p + Suc (entries_num st)),
                take (b - a) (drop a (c_string body)) @ [newline])]\<rparr>)"
proof -
  have a': "a < ull_mod" using ab by simp
  have ca: "coord_check (fs ! 3) False = (a, False, True)" using coord_check_show_nat [OF a'] a by simp
  have cb: "coord_check (fs ! 4) False = (b, False, True)" using coord_check_show_nat [OF ab(2)] b by simp
  have cut: "cut_body body a (b - a) = Inr (take (b - a) (drop a (c_string body)) @ [newline])"
    using cut_body_within [OF body(2)] ab by simp
  from process_line_coords [OF nc f ty er ca cb _ a' ab(2) hid h body(1), where pf = pf] ab cut
  show ?thesis by simp
qed


subsection \<open>The loop invariant\<close>

lemma process_line_inv:
  assumes "process_line p pf hdrs seqs st line = Inr st'" and "gff_inv st"
  shows "gff_inv st' \<and> entries_num st' = Suc (entries_num st)"
  using assms
  by (auto simp: process_line_def Let_def warn_def gff_inv_def sbind_Inr_iff
           split: if_splits option.splits prod.splits)

lemma gff_loop_inv:
  "gff_loop p pf hdrs seqs st ls = Inr st' \<Longrightarrow> gff_inv st \<Longrightarrow>
   gff_inv st' \<and> entries_num st' = entries_num st + length ls"
proof (induction ls arbitrary: st)
  case (Cons l ls)
  from Cons.prems(1) obtain st1 where s1: "process_line p pf hdrs seqs st l = Inr st1"
    and r: "gff_loop p pf hdrs seqs st1 ls = Inr st'"
    by (auto simp: sbind_Inr_iff)
  from process_line_inv [OF s1 Cons.prems(2)] Cons.IH [OF r] show ?case by simp
qed simp


text \<open>C24 (invariant). Whenever the tool finishes, both output databases hold records
  under the same keys in the same order, the line counter equals the number of lines
  of the file, and every line produced at most one record pair or one warning.\<close>

theorem gff2ffindex_consistent:
  assumes "gff2ffindex p pf hdrs seqs e text = Inr st"
  shows "map fst (hdr_out st) = map fst (seq_out st) \<and> entries_num st = length (file_lines text) \<and>
         length (seq_out st) + length (warnings st) \<le> entries_num st"
proof -
  have "gff_inv \<lparr>entries_num = 0, errno_erange = e, hdr_out = [], seq_out = [], warnings = []\<rparr>"
    by (simp add: gff_inv_def)
  from gff_loop_inv [OF assms [unfolded gff2ffindex_def] this] show ?thesis
    by (simp add: gff_inv_def)
qed

lemma process_line_erange_effect:
  assumes "errno_erange st"
  shows "\<exists>st1. process_line p pf hdrs seqs st l = Inr st1 \<and> errno_erange st1 \<and>
    hdr_out st1 = hdr_out st \<and> seq_out st1 = seq_out st \<and> entries_num st1 = Suc (entries_num st) \<and>
    warnings st1 = warnings st @
      (if CHR ''#'' \<notin> set l \<and> (length (split_tab l) \<noteq> 9 \<or> gffType p = [] \<or> split_tab l ! 2 = gffType p)
       then [(if length (split_tab l) = 9 then InvalidStart else InvalidFormat, Suc (entries_num st))] else [])"
  using assms by (simp add: process_line_erange warn_def)

text \<open>C25 (error). \<open>errno\<close> is never reset: once a coordinate has overflowed
  (\<open>ERANGE\<close>), the rest of the file produces no record and cannot fail, and every later
  line that is no comment and is not skipped for its type is rejected with a warning
  under its line number: an invalid-start warning when it has nine fields, valid or
  not, and an invalid-format warning otherwise.\<close>

theorem gff_sticky_errno:
  assumes "errno_erange st"
  shows "\<exists>st'. gff_loop p pf hdrs seqs st ls = Inr st' \<and> errno_erange st' \<and>
    hdr_out st' = hdr_out st \<and> seq_out st' = seq_out st \<and> entries_num st' = entries_num st + length ls \<and>
    warnings st' = warnings st @
      concat (map (\<lambda>(n, l). if CHR ''#'' \<notin> set l \<and>
          (length (split_tab l) \<noteq> 9 \<or> gffType p = [] \<or> split_tab l ! 2 = gffType p)
        then [(if length (split_tab l) = 9 then InvalidStart else InvalidFormat, n)] else [])
        (enumerate (Suc (entries_num st)) ls))"
  using assms
proof (induction ls arbitrary: st)
  case Nil
  then show ?case by simp
next
  case (Cons l ls)
  obtain st1 where s1: "process_line p pf hdrs seqs st l = Inr st1" and e1: "errno_erange st1"
    and o1: "hdr_out st1 = hdr_out st" "seq_out st1 = seq_out st" "entries_num st1 = Suc (entries_num st)"
    and w1: "warnings st1 = warnings st @
      (if CHR ''#'' \<notin> set l \<and> (length (split_tab l) \<noteq> 9 \<or> gffType p = [] \<or> split_tab l ! 2 = gffType p)
       then [(if length (split_tab l) = 9 then InvalidStart else InvalidFormat, Suc (entries_num st))] else [])"
    using process_line_erange_effect [OF Cons.prems] by blast
  from Cons.IH [OF e1] s1 o1 w1 show ?case by auto
qed

text \<open>C26 (error). A start field without any digit, such as GFF's \<open>.\<close>, is accepted
  as 0: \<open>strtoull\<close> consumes nothing, and the check only rejects trailing characters
  after digits. Such a feature line is cut as the residues \<open>[0, end)\<close> and its header
  says \<open>0-end\<close>.\<close>

theorem gff_no_digit_start:
  assumes nc: "CHR ''#'' \<notin> set line" and f: "split_tab line = fs" "length fs = 9"
    and ty: "gffType p = []" and er: "\<not> errno_erange st"
    and a: "\<forall>c\<in>set (fs ! 3). \<not> is_digit c" and b: "fs ! 4 = show_nat b" "0 < b" "b < ull_mod"
    and hid: "db_getId hdrs (fs ! 0) = Some hid"
    and h: "c_string (snd (hdrs ! hid)) = h @ [newline]" "length (snd (hdrs ! hid)) = length h + 2"
    and body: "db_getDataByDBKey seqs (fs ! 0) = Some body" "b \<le> length (c_string body)"
  shows "process_line p pf hdrs seqs st line =
    Inr (st\<lparr>entries_num := Suc (entries_num st),
            hdr_out := hdr_out st @
              [(if useHeader p then pf (c_string body) else show_nat (identifierOffset p + Suc (entries_num st)),
                h @ '' '' @ '' '' @ ''0'' @ ''-'' @ show_nat b @ [newline])],
            seq_out := seq_out st @
              [(if useHeader p then pf (c_string body) else show_nat (identifierOffset p + Suc (entries_num st)),
                take b (c_string body) @ [newline])]\<rparr>)"
proof -
  have ca: "coord_check (fs ! 3) False = (0, False, True)" using coord_check_no_digit [OF a] by simp
  have cb: "coord_check (fs ! 4) False = (b, False, True)" using coord_check_show_nat [OF b(3)] b(1) by simp
  have z: "(0 :: nat) < ull_mod" by (simp add: ull_mod_def)
  have cut: "cut_body body 0 (b - 0) = Inr (take b (c_string body) @ [newline])"
    using cut_body_within [OF body(2), of 0] by simp
  from process_line_coords [OF nc f ty er ca cb _ z b(3) hid h body(1), where pf = pf] b(2) cut
  show ?thesis by (simp add: show_nat.simps [of 0] digit_char_def)
qed

text \<open>C28 (error). A \<open>#\<close> anywhere in a line, not only at its start, makes it a
  comment (\<open>find_first_of\<close> searches the whole line): a feature whose attribute column
  contains \<open>#\<close> is dropped without a record and without a warning; only the line
  counter advances.\<close>

theorem gff_hash_in_attributes:
  assumes "CHR ''#'' \<in> set line"
  shows "process_line p pf hdrs seqs st line = Inr (st\<lparr>entries_num := Suc (entries_num st)\<rparr>)"
  using assms by (simp add: process_line_def Let_def)

text \<open>C29 (error). A feature of one residue (\<open>start = end\<close>, valid in 1-based GFF) is
  rejected as an invalid sequence length, whatever the databases hold.\<close>

theorem gff_single_residue_rejected:
  assumes nc: "CHR ''#'' \<notin> set line" and f: "split_tab line = fs" "length fs = 9"
    and ty: "gffType p = []" and er: "\<not> errno_erange st"
    and a: "fs ! 3 = show_nat a" "fs ! 4 = show_nat a" "a < ull_mod"
  shows "process_line p pf hdrs seqs st line = Inr (warn InvalidLength (st\<lparr>entries_num := Suc (entries_num st)\<rparr>))"
proof -
  have c: "coord_check (fs ! 3) False = (a, False, True)" "coord_check (fs ! 4) False = (a, False, True)"
    using coord_check_show_nat [OF a(3)] a(1,2) by simp_all
  have st: "st\<lparr>entries_num := Suc (entries_num st), errno_erange := False\<rparr> =
            st\<lparr>entries_num := Suc (entries_num st)\<rparr>"
    using er by simp
  show ?thesis using nc f ty er c by (simp add: process_line_def Let_def st)
qed

text \<open>C27 (error). An end coordinate below the start is not rejected (only
  \<open>start = end\<close> is): for such a line whose entry exists, \<open>end - start\<close> wraps around in
  \<open>size_t\<close> and the body buffer \<open>char bodyBuffer[length + 1]\<close> is a variable-length
  array of about \<open>2^64\<close> bytes.\<close>

theorem gff_end_before_start:
  assumes nc: "CHR ''#'' \<notin> set line" and f: "split_tab line = fs" "length fs = 9"
    and ty: "gffType p = []" and er: "\<not> errno_erange st"
    and a: "fs ! 3 = show_nat a" and b: "fs ! 4 = show_nat b" and ab: "b < a" "a < ull_mod"
    and hid: "db_getId hdrs (fs ! 0) = Some hid"
    and h: "c_string (snd (hdrs ! hid)) = h @ [newline]" "length (snd (hdrs ! hid)) = length h + 2"
    and body: "db_getDataByDBKey seqs (fs ! 0) = Some body"
  shows "process_line p pf hdrs seqs st line = Inl (BodyBufferOverflow a b)"
proof -
  have b': "b < ull_mod" using ab by simp
  have ca: "coord_check (fs ! 3) False = (a, False, True)" using coord_check_show_nat [OF ab(2)] a by simp
  have cb: "coord_check (fs ! 4) False = (b, False, True)" using coord_check_show_nat [OF b'] b by simp
  from process_line_coords [OF nc f ty er ca cb _ ab(2) b' hid h body, where pf = pf] ab
  show ?thesis by simp
qed

subsection \<open>Witnesses\<close>

theorem process_line_feature_witness:
  "process_line ex_params id ex_hdrs ex_seqs
     \<lparr>entries_num = 0, errno_erange = False, hdr_out = [], seq_out = [], warnings = []\<rparr>
     (join_tab (feature ''1'' ''3'' ''ID=g1'')) =
   Inr \<lparr>entries_num = 1, errno_erange = False, hdr_out = [(''1'', ''chr1 test  1-3'' @ [newline])],
        seq_out = [(''1'', ''CG'' @ [newline])], warnings = []\<rparr>"
proof -
  let ?fs = "feature ''1'' ''3'' ''ID=g1''"
  have f: "split_tab (join_tab ?fs) = ?fs" "length ?fs = 9" by (simp_all add: gff_eval)
  have nc: "CHR ''#'' \<notin> set (join_tab ?fs)" by (simp add: gff_eval)
  have ab: "?fs ! 3 = show_nat 1" "?fs ! 4 = show_nat 3" "(1::nat) < 3" "(3::nat) < ull_mod"
    by (simp_all add: gff_eval)
  have hid: "db_getId ex_hdrs (?fs ! 0) = Some 0" by (simp add: gff_eval)
  have h: "c_string (snd (ex_hdrs ! 0)) = ''chr1 test'' @ [newline]"
    "length (snd (ex_hdrs ! 0)) = length ''chr1 test'' + 2" by (simp_all add: gff_eval)
  have b: "db_getDataByDBKey ex_seqs (?fs ! 0) = Some (''ACGTACGTAC'' @ [newline, CHR 0x00])"
    "3 \<le> length (c_string (''ACGTACGTAC'' @ [newline, CHR 0x00]))" by (simp_all add: gff_eval)
  have ty: "gffType ex_params = []" by (simp add: ex_params_def)
  from process_line_feature [OF nc f ty _ ab hid h b, where pf = id] show ?thesis
    by (simp add: gff_eval)
qed

theorem gff2ffindex_consistent_witness:
  "map fst (hdr_out (projr (gff2ffindex ex_params id ex_hdrs ex_seqs False
      (gff_text [feature ''1'' ''3'' ''ID=g1'', feature ''2'' ''9'' ''ID=g2''])))) = [''1'', ''2''] \<and>
   entries_num (projr (gff2ffindex ex_params id ex_hdrs ex_seqs False
      (gff_text [feature ''1'' ''3'' ''ID=g1'', feature ''2'' ''9'' ''ID=g2'']))) = 2"
proof -
  obtain st where r: "gff2ffindex ex_params id ex_hdrs ex_seqs False
      (gff_text [feature ''1'' ''3'' ''ID=g1'', feature ''2'' ''9'' ''ID=g2'']) = Inr st"
    and k: "map fst (hdr_out st) = [''1'', ''2'']"
    by (simp add: gff_eval)
  have "length (file_lines (gff_text [feature ''1'' ''3'' ''ID=g1'', feature ''2'' ''9'' ''ID=g2''])) = 2"
    by (simp add: gff_eval)
  with gff2ffindex_consistent [OF r] r k show ?thesis by simp
qed

text \<open>The witnesses of the line-level properties run on one line of the fixture, from
  the start state.\<close>

theorem gff_sticky_errno_witness:
  "\<exists>st'. gff_loop ex_params id ex_hdrs ex_seqs
     \<lparr>entries_num = 1, errno_erange = True, hdr_out = [], seq_out = [], warnings = [(InvalidStart, 1)]\<rparr>
     [join_tab (feature ''1'' ''3'' ''ID=g2''), ''#c'', ''x'', join_tab (feature ''2'' ''9'' ''ID=g3'')] = Inr st' \<and>
     hdr_out st' = [] \<and> seq_out st' = [] \<and> entries_num st' = 5 \<and>
     warnings st' = [(InvalidStart, 1), (InvalidStart, 2), (InvalidFormat, 4), (InvalidStart, 5)]"
proof -
  let ?ls = "[join_tab (feature ''1'' ''3'' ''ID=g2''), ''#c'', ''x'', join_tab (feature ''2'' ''9'' ''ID=g3'')]"
  have "concat (map (\<lambda>(n, l). if CHR ''#'' \<notin> set l \<and>
          (length (split_tab l) \<noteq> 9 \<or> gffType ex_params = [] \<or> split_tab l ! 2 = gffType ex_params)
        then [(if length (split_tab l) = 9 then InvalidStart else InvalidFormat, n)] else [])
        (enumerate (Suc 1) ?ls)) = [(InvalidStart, 2), (InvalidFormat, 4), (InvalidStart, 5)]"
    by (simp add: gff_eval)
  with gff_sticky_errno [of "\<lparr>entries_num = 1, errno_erange = True, hdr_out = [], seq_out = [],
      warnings = [(InvalidStart, 1)]\<rparr>" ex_params id ex_hdrs ex_seqs ?ls]
  show ?thesis by auto
qed

theorem gff_no_digit_start_witness:
  "process_line ex_params id ex_hdrs ex_seqs
     \<lparr>entries_num = 0, errno_erange = False, hdr_out = [], seq_out = [], warnings = []\<rparr>
     (join_tab (feature ''.'' ''3'' ''ID=g1'')) =
   Inr \<lparr>entries_num = 1, errno_erange = False, hdr_out = [(''1'', ''chr1 test  0-3'' @ [newline])],
        seq_out = [(''1'', ''ACG'' @ [newline])], warnings = []\<rparr>"
proof -
  let ?fs = "feature ''.'' ''3'' ''ID=g1''"
  have f: "split_tab (join_tab ?fs) = ?fs" "length ?fs = 9" by (simp_all add: gff_eval)
  have nc: "CHR ''#'' \<notin> set (join_tab ?fs)" by (simp add: gff_eval)
  have a: "\<forall>c\<in>set (?fs ! 3). \<not> is_digit c" by (simp add: gff_eval)
  have b: "?fs ! 4 = show_nat 3" "(0::nat) < 3" "(3::nat) < ull_mod" by (simp_all add: gff_eval)
  have hid: "db_getId ex_hdrs (?fs ! 0) = Some 0" by (simp add: gff_eval)
  have h: "c_string (snd (ex_hdrs ! 0)) = ''chr1 test'' @ [newline]"
    "length (snd (ex_hdrs ! 0)) = length ''chr1 test'' + 2" by (simp_all add: gff_eval)
  have bd: "db_getDataByDBKey ex_seqs (?fs ! 0) = Some (''ACGTACGTAC'' @ [newline, CHR 0x00])"
    "3 \<le> length (c_string (''ACGTACGTAC'' @ [newline, CHR 0x00]))" by (simp_all add: gff_eval)
  have ty: "gffType ex_params = []" by (simp add: ex_params_def)
  from gff_no_digit_start [OF nc f ty _ a b hid h bd, where pf = id] show ?thesis
    by (simp add: gff_eval)
qed

theorem gff_hash_in_attributes_witness:
  "process_line ex_params id ex_hdrs ex_seqs
     \<lparr>entries_num = 0, errno_erange = False, hdr_out = [], seq_out = [], warnings = []\<rparr>
     (join_tab (feature ''1'' ''3'' ''ID=g1;Note=#1'')) =
   Inr \<lparr>entries_num = 1, errno_erange = False, hdr_out = [], seq_out = [], warnings = []\<rparr>"
proof -
  have "CHR ''#'' \<in> set (join_tab (feature ''1'' ''3'' ''ID=g1;Note=#1''))" by (simp add: gff_eval)
  from gff_hash_in_attributes [OF this, of ex_params id ex_hdrs ex_seqs
      "\<lparr>entries_num = 0, errno_erange = False, hdr_out = [], seq_out = [], warnings = []\<rparr>"]
  show ?thesis by simp
qed

theorem gff_single_residue_rejected_witness:
  "process_line ex_params id ex_hdrs ex_seqs
     \<lparr>entries_num = 0, errno_erange = False, hdr_out = [], seq_out = [], warnings = []\<rparr>
     (join_tab (feature ''2'' ''2'' ''ID=g1'')) =
   Inr \<lparr>entries_num = 1, errno_erange = False, hdr_out = [], seq_out = [], warnings = [(InvalidLength, 1)]\<rparr>"
proof -
  let ?fs = "feature ''2'' ''2'' ''ID=g1''"
  have f: "split_tab (join_tab ?fs) = ?fs" "length ?fs = 9" by (simp_all add: gff_eval)
  have nc: "CHR ''#'' \<notin> set (join_tab ?fs)" by (simp add: gff_eval)
  have a: "?fs ! 3 = show_nat 2" "?fs ! 4 = show_nat 2" "(2::nat) < ull_mod" by (simp_all add: gff_eval)
  have ty: "gffType ex_params = []" by (simp add: ex_params_def)
  from gff_single_residue_rejected [OF nc f ty _ a, where pf = id and hdrs = ex_hdrs and seqs = ex_seqs]
  show ?thesis by (simp add: warn_def)
qed

theorem gff_end_before_start_witness:
  "process_line ex_params id ex_hdrs ex_seqs
     \<lparr>entries_num = 0, errno_erange = False, hdr_out = [], seq_out = [], warnings = []\<rparr>
     (join_tab (feature ''5'' ''3'' ''ID=g1'')) = Inl (BodyBufferOverflow 5 3)"
proof -
  let ?fs = "feature ''5'' ''3'' ''ID=g1''"
  have f: "split_tab (join_tab ?fs) = ?fs" "length ?fs = 9" by (simp_all add: gff_eval)
  have nc: "CHR ''#'' \<notin> set (join_tab ?fs)" by (simp add: gff_eval)
  have ab: "?fs ! 3 = show_nat 5" "?fs ! 4 = show_nat 3" "(3::nat) < 5" "(5::nat) < ull_mod"
    by (simp_all add: gff_eval)
  have hid: "db_getId ex_hdrs (?fs ! 0) = Some 0" by (simp add: gff_eval)
  have h: "c_string (snd (ex_hdrs ! 0)) = ''chr1 test'' @ [newline]"
    "length (snd (ex_hdrs ! 0)) = length ''chr1 test'' + 2" by (simp_all add: gff_eval)
  have bd: "db_getDataByDBKey ex_seqs (?fs ! 0) = Some (''ACGTACGTAC'' @ [newline, CHR 0x00])"
    by (simp add: gff_eval)
  have ty: "gffType ex_params = []" by (simp add: ex_params_def)
  from gff_end_before_start [OF nc f ty _ ab hid h bd, where pf = id] show ?thesis by simp
qed

end
