(* ===== verification/Spec2Isabelle.thy ===== *)
theory Spec2Isabelle
  imports Prelude Sequence KmerLoop ScoreMatrix QueryProfile SmithWaterman Statistics Matcher Traceback Lifecycle Gff
begin

text \<open>
  \<^bold>\<open>A verification development of the MMseqs2 alignment core.\<close>

  \<^medskip>\<^bold>\<open>The program.\<close> Residue text is encoded by \<open>Sequence::mapSequence\<close>
  (\<open>src/src/commons/Sequence.cpp\<close>) into alphabet codes; \<open>Matcher::getSWResult\<close>
  (\<open>src/src/alignment/Matcher.cpp\<close>) rebuilds the striped query profile
  (\<open>calcQueryProfileWord\<close>), runs the 16-bit SIMD Smith-Waterman kernel
  \<open>smith_waterman_sse2_word\<close> and the traceback \<open>traceback_word\<close> over it, and turns
  score and coordinates into coverage and e-value. The kernel, the traceback and the
  score matrix \<open>BaseMatrix\<close> are not part of the sources; they are modelled from the
  spec and marked so in the manifest.

  \<^medskip>\<^bold>\<open>Theories.\<close>
  \<^item> \<open>Prelude\<close>: C-level vocabulary shared by all components: signed \<open>char\<close>
    (\<open>schar\<close>), \<open>tolower\<close>, \<open>strlen\<close> (\<open>c_string\<close>), array reads that fail outside the
    allocation (\<open>tbl_get\<close>), buffer writes, error sequencing (\<open>sbind\<close> on
    \<open>'e + 'a\<close>, \<open>Inl\<close> the error), 16-bit saturation and 32-bit wrap-around.
  \<^item> \<open>Sequence\<close>: the \<open>Sequence\<close> object as a record; the constructor (the buffer,
    \<open>id\<close>, \<open>dbKey\<close> and \<open>L\<close> it leaves uninitialised are parameters), the two encoders
    (\<open>encode_protein\<close>, \<open>encode_nucleotide\<close>: the loop bodies of
    \<open>mapProteinSequence\<close>/\<open>mapNucleotideSequence\<close>), the shared loop \<open>map_loop\<close>
    (newline skip, store, capacity check; every \<open>exit(1)\<close> and every out-of-range
    array access an error value), \<open>mapSequence\<close>, \<open>print\<close>'s residue line and the
    k-mer cursor \<open>hasNextKmer\<close>/\<open>nextKmer\<close>. Lemmas: the exact success condition
    and result of \<open>mapSequence\<close>, the representation invariant \<open>seq_wf\<close> (established
    by the first \<open>mapSequence\<close>, not by the constructor, and preserved), validity of the
    stored codes, the canonicalisation of ambiguity codes (stored without the \<open>-1\<close>
    check), case-insensitivity, the error paths (too long, high bytes), the k-mer
    cursor as a refinement of the list of windows (a \<open>function\<close> with a measure), and a
    print/map round trip.
  \<^item> \<open>KmerLoop\<close>: the cursor's C \<open>int\<close> arithmetic (\<open>hasNextKmer32\<close>,
    \<open>nextKmer32\<close>: a sum outside \<open>[-2^31, 2^31)\<close> is signed overflow, the error value
    \<open>IntOverflow\<close>) and the callers' loop \<open>while (s.hasNextKmer(k)) s.nextKmer(k)\<close> as a
    \<open>partial_function (option)\<close>. For a cursor at or after \<open>-1\<close>, \<open>0 \<le> k\<close> and a length
    below \<open>INT_MAX\<close> it stops without overflow with the cursor at
    \<open>max currItPos (L - k)\<close>; for \<open>k = INT_MIN\<close> the cursor overflows.
  \<^item> \<open>ScoreMatrix\<close>: the members of \<open>BaseMatrix\<close> the code reads (spec-modelled).
  \<^item> \<open>QueryProfile\<close>: \<open>calcQueryProfileWord\<close> as three structural recursions over
    the remaining loop counts, each store an indexed write that fails past the
    buffer. Lemmas: equivalence with the striped layout of spec section 3, safety of
    the constructor's buffer when \<open>maxSeqLen\<close> is a multiple of 8, the overflow when
    it is not, and uniqueness of a position's stripe slot.
  \<^item> \<open>SmithWaterman\<close>: the forward kernel (spec 4.3) as a column sweep \<open>sweep\<close>
    over the query for each target position (\<open>sw_cols\<close>, \<open>sw_run\<close>), with lane
    arithmetic either saturating (\<open>sat = True\<close>, the kernel) or unbounded (the
    reference), and the reference recurrence \<open>hef\<close> with the abstract specification
    \<open>sw_spec\<close> (best score, first cell in scan order). Lemmas: the unbounded sweep
    equals the recurrence and \<open>sw_spec\<close>; the saturating sweep equals it whenever the
    best score is at most 32767 (a simulation relation \<open>sat_rel\<close> between saturated
    and unbounded cells: equal H, E and F clamped at -32768), and reaches exactly
    32767 when the best score is at least 32767 (in the first column where the
    recurrence exceeds the ceiling, the crossing cell's diagonal sum saturates), so the
    kernel reports \<open>min best 32767\<close>; ties go to the first cell in scan order; non-positive scores
    give \<open>(0, 0, 0)\<close>; the diagonal is a lower bound; reported positions lie inside
    the matrix; only the scores inside the matrix matter.
  \<^item> \<open>Statistics\<close>: coverage and e-value of \<open>getSWResult\<close> (lines 56--58), with the
    32-bit product \<open>seqDbSize * qL * dbL\<close> wrapping. Lemma: the e-value is the spec's
    formula exactly when that product is below \<open>2^31\<close>.
  \<^item> \<open>Matcher\<close>: the \<open>Matcher\<close> record and constructor, the kernel and traceback
    interfaces reading signed 16-bit lanes of the profile at the striped offsets
    (\<open>prof_index\<close>, \<open>prof_score\<close>), and \<open>getSWResult\<close> composing profile rebuild,
    kernel, traceback and statistics with the matcher state passed explicitly.
    Lemmas: the kernel reads exactly the substitution scores from the profile
    \<open>calcQueryProfileWord\<close> built; end to end the reported score is the spec's
    Smith-Waterman score when it fits in 16 bits and exactly 32767 otherwise; the
    result does not depend on what the profile buffer held before the call; scenario B
    and the self-alignment bound of the spec;
    coverage in \<open>[0, 1]\<close> for sequences shorter than 65536.
  \<^item> \<open>Traceback\<close>: what the forward pass and the traceback compute, in terms of
    alignments. An alignment is a start cell and a list of columns (\<open>aop\<close>: match, gap
    in the query, gap in the target) scored by \<open>aln_score\<close>. Substitution scores come
    from matches. A gap column costs the gap-open penalty when it starts a run of its
    kind and the gap-extend penalty otherwise. Lemmas, by snoc induction and induction
    on \<open>i + j\<close>:
    \<^item> H of the recurrence \<open>hef\<close> bounds every alignment ending at a cell, and every
      positive H is attained by one;
    \<^item> reversing both sequences reverses alignments and keeps their scores;
    \<^item> the traceback's reversed-prefix pass finds the forward score again, and its end
      cell, read back, is the start of an optimal alignment that ends exactly at the
      forward end cell (an earlier end would come first in scan order).

    End to end, \<open>getSWResult\<close>'s coverages measure the spans of an alignment that
    attains the reported score, and no alignment of the pair scores more.
  \<^item> \<open>Lifecycle\<close>: memory over an explicit heap (live blocks with \<open>64 word\<close>
    addresses). \<open>memalign\<close>, \<open>new\<close> and \<open>free\<close> are operations on it, and the allocator's
    answers are parameters bound by its contract (\<open>memalign\<close> may return \<open>NULL\<close>).
    \<open>Sequence_new\<close>/\<open>Sequence_dtor\<close> model \<open>Sequence::Sequence\<close>/\<open>~Sequence\<close>,
    \<open>Matcher_new\<close>/\<open>Matcher_dtor\<close> model \<open>Matcher::Matcher\<close>/\<open>~Matcher\<close> (sizes with
    their \<open>int\<close> arithmetic, workspace rounded up by \<open>(p + 255) AND NOT 255\<close>), and
    \<open>getSWResult_heap\<close> models the three per-pair matrices. A worker session
    (\<open>Matcher_session\<close>) composes them. Lemmas: the per-pair matrices are released; a
    \<open>Sequence\<close> gives back its blocks; the workspace pointer is 256-aligned and its
    vectors fit in the block; the profile block matches the modelled buffer while the
    \<open>int\<close> product does not overflow (and concrete overflows when it does). The main
    result: a session restores the heap iff \<open>memalign\<close> returned a 256-aligned
    workspace block, and otherwise \<open>~Matcher\<close> frees a pointer that is no allocation.
  \<^item> \<open>Gff\<close>: the \<open>gff2ffindex\<close> tool (\<open>src/src/util/gff2ffindex.cpp\<close>), a separate
    program that cuts GFF features out of a sequence database. The loop state (line
    counter, \<open>errno\<close>, records passed to the two writers, warnings) is a record
    threaded through \<open>process_line\<close>, one call per \<open>getline\<close> line (\<open>gff_loop\<close>);
    \<open>strtoull\<close>, decimal printing, \<open>getline\<close> and \<open>Util::split\<close> are modelled after
    their C and C++ library behaviour, the database reader as a list of entries, and
    \<open>Util::parseFastaHeader\<close> is a parameter. Lemmas: the records a well-formed
    feature line produces (through one lemma \<open>process_line_coords\<close> for every line
    that passes the checks), the consistency invariant of the two outputs, the decimal
    round trip of \<open>strtoull\<close>, and the error behaviours, each for every line or file
    of its kind: a start field without digits read as 0, a sticky \<open>errno\<close> silencing
    the rest of the file, \<open>#\<close> anywhere making a comment, one-residue features
    rejected, \<open>end < start\<close> overflowing the body buffer.

  \<^medskip>\<^bold>\<open>Bounds and loops.\<close> Every loop of the sources is a structural recursion on
  the remaining input or count, except the k-mer cursor, a \<open>function\<close> terminating
  by the measure \<open>L - k - currItPos\<close>; the same loop over the \<open>int\<close> cursor, a
  \<open>partial_function (option)\<close>, is proved to return \<open>Some\<close> without overflow by induction
  on that measure. No fuel is used. Machine integers: profile
  entries and kernel lanes are \<open>16 word\<close> values read by \<open>sint\<close>, coordinates pass
  through \<open>unsigned short\<close> (\<open>word_of_nat\<close>/\<open>unat\<close> at 16 bits), the e-value
  product is written with its 32-bit wrap-around. The witnesses run on small
  nucleotide fixtures (alphabet \<open>acgtn\<close>, capacity 16) evaluated by \<open>code_simp\<close>;
  the \<open>gff2ffindex\<close> fixtures are evaluated by \<open>simp\<close> with the bundle \<open>gff_eval\<close>
  (\<open>code_simp\<close> would compute the \<open>2^64\<close> bound of \<open>strtoull\<close> in unary). For the
  same reason the heap fixtures of \<open>Lifecycle\<close> are evaluated by \<open>simp\<close> with the bundle
  \<open>mem_eval\<close>.

  \<^medskip>\<^bold>\<open>Not modelled.\<close> The contents of heap memory beyond the profile buffer
  (the kernel's reads and writes of the workspace and of the H/E/F matrices), so what
  happens after an unchecked \<open>NULL\<close> from \<open>memalign\<close> is not modelled (\<open>Lifecycle\<close> only
  records that the allocation failed); \<open>sizeof(statistics_t)\<close>, which is a parameter; the
  SIMD lane shuffling inside the kernel (the model
  computes the same recurrence column by column and the theorems relate it to the
  recurrence); floating-point rounding of coverage and e-value (reals), and
  \<open>fpow2\<close>, whose definition is not in the repository (the exact power of two, so its
  underflow for large scores and the spec's strictly decreasing e-value are out of
  reach); console output other than the residue line; the
  database reader/writer, \<open>Parameters\<close>, \<open>Debug\<close> and \<open>Util\<close> (I/O and plumbing
  outside the sources); in \<open>gff2ffindex\<close>, parameter parsing, the usage text and
  opening and closing the databases.
\<close>

end
